theory Spec2Isabelle
  imports Complex_Main "HOL-Library.Log_Nat" "HOL-Library.AList" "HOL-Library.Sublist"
begin

section \<open>Python values as the pipeline sees them\<close>

text \<open>
  The program (\<^verbatim>\<open>src/IoT_Platform.py\<close>) reads JSON frames from a serial line, validates
  them, shows them on widgets and stores them in SQLite. The values that flow through it
  are what \<^verbatim>\<open>json.loads\<close> builds: \<^verbatim>\<open>None\<close>, booleans, unbounded integers, floats, strings,
  lists and dictionaries with string keys.

  A Python float is modelled by its exact value: a finite double is a rational number, and
  the three special values are separate constructors. The program only compares floats and
  never computes with them, and IEEE comparison of two doubles is comparison of their exact
  values, with every comparison against a NaN false. The two zeros of a double are one
  value here. A dictionary is an association list in insertion order, read through
  \<^const>\<open>map_of\<close>.
\<close>

datatype py_exc = ValueError | TypeError | OverflowError | KeyError | AttributeError

datatype pyfloat = Finite rat | PosInf | NegInf | NaN

datatype jvalue =
    JNull
  | JBool bool
  | JInt int
  | JFloat pyfloat
  | JStr string
  | JList "jvalue list"
  | JDict "(string \<times> jvalue) list"

type_synonym pydict = "(string \<times> jvalue) list"

text \<open>
  Three builtins act on strings through grammars that are Python's and not this program's:
  \<^verbatim>\<open>int(s)\<close> and \<^verbatim>\<open>float(s)\<close> on a string \<^verbatim>\<open>s\<close> (\<open>None\<close> stands for the \<^verbatim>\<open>ValueError\<close> they
  raise on a string that is no literal), and \<^verbatim>\<open>str(v)\<close> on a value that is not a string.
  They are parameters of the model; every theorem below holds for all of them.
\<close>

record builtins =
  int_of_str :: "string \<Rightarrow> int option"
  float_of_str :: "string \<Rightarrow> pyfloat option"
  str_of :: "jvalue \<Rightarrow> string"

text \<open>
  An instance for evaluating the model on frames in which no string is coerced to a number
  and no value other than a string is a type label: it is never consulted on them.
\<close>

definition no_literals :: builtins where
  "no_literals = \<lparr>int_of_str = (\<lambda>s. None), float_of_str = (\<lambda>s. None), str_of = (\<lambda>v. [])\<rparr>"

text \<open>\<^verbatim>\<open>min_val <= val\<close> and \<^verbatim>\<open>val <= max_val\<close> for an integer bound and a float.\<close>

fun int_le_float :: "int \<Rightarrow> pyfloat \<Rightarrow> bool" where
  "int_le_float i (Finite q) = (of_int i \<le> q)"
| "int_le_float i PosInf = True"
| "int_le_float i NegInf = False"
| "int_le_float i NaN = False"

fun float_le_int :: "pyfloat \<Rightarrow> int \<Rightarrow> bool" where
  "float_le_int (Finite q) i = (q \<le> of_int i)"
| "float_le_int PosInf i = False"
| "float_le_int NegInf i = True"
| "float_le_int NaN i = False"

text \<open>
  \<^verbatim>\<open>float(i)\<close> for an integer: exact below \<open>2^53\<close>, otherwise rounded to 53 significant
  bits, ties to even, and \<^verbatim>\<open>OverflowError\<close> when the rounded value does not fit a double.
\<close>

definition int_to_float :: "int \<Rightarrow> py_exc + pyfloat" where
  "int_to_float i =
     (let a = \<bar>i\<bar> in
      if a < 2 ^ 53 then Inr (Finite (of_int i))
      else
        let e = nat (bitlen a) - 53;
            q = a div 2 ^ e;
            r = a mod 2 ^ e;
            h = 2 ^ (e - 1);
            m = (if h < r \<or> (r = h \<and> odd q) then q + 1 else q) * 2 ^ e
        in if 2 ^ 1024 \<le> m then Inl OverflowError
           else Inr (Finite (of_int (sgn i * m))))"

fun py_float :: "builtins \<Rightarrow> jvalue \<Rightarrow> py_exc + pyfloat" where
  "py_float B JNull = Inl TypeError"
| "py_float B (JBool b) = Inr (Finite (if b then 1 else 0))"
| "py_float B (JInt i) = int_to_float i"
| "py_float B (JFloat f) = Inr f"
| "py_float B (JStr s) = (case float_of_str B s of None \<Rightarrow> Inl ValueError | Some f \<Rightarrow> Inr f)"
| "py_float B (JList xs) = Inl TypeError"
| "py_float B (JDict d) = Inl TypeError"

text \<open>\<^verbatim>\<open>int(v)\<close>: a float is truncated towards zero; an infinity and a NaN raise.\<close>

fun py_int :: "builtins \<Rightarrow> jvalue \<Rightarrow> py_exc + int" where
  "py_int B JNull = Inl TypeError"
| "py_int B (JBool b) = Inr (if b then 1 else 0)"
| "py_int B (JInt i) = Inr i"
| "py_int B (JFloat (Finite q)) = Inr (if 0 \<le> q then \<lfloor>q\<rfloor> else \<lceil>q\<rceil>)"
| "py_int B (JFloat PosInf) = Inl OverflowError"
| "py_int B (JFloat NegInf) = Inl OverflowError"
| "py_int B (JFloat NaN) = Inl ValueError"
| "py_int B (JStr s) = (case int_of_str B s of None \<Rightarrow> Inl ValueError | Some i \<Rightarrow> Inr i)"
| "py_int B (JList xs) = Inl TypeError"
| "py_int B (JDict d) = Inl TypeError"

fun py_str :: "builtins \<Rightarrow> jvalue \<Rightarrow> string" where
  "py_str B (JStr s) = s"
| "py_str B v = str_of B v"

section \<open>SerialReader\<close>

subsection \<open>validate\_sensor\_data\<close>

text \<open>
  The table of numeric fields with their bounds, in the order of the source's dictionary
  literal, which is the order the loop visits them in.
\<close>

definition numeric_fields :: "(string \<times> int \<times> int) list" where
  "numeric_fields =
     [(''pm25'', 0, 10000), (''pm10'', 0, 10000), (''eco2'', 0, 10000),
      (''tvoc'', 0, 10000), (''co'', 0, 10000), (''no2'', 0, 10000),
      (''temp'', - 50, 100), (''humidity'', 0, 100)]"

text \<open>
  The loop over \<^verbatim>\<open>numeric_fields.items()\<close>. The \<^verbatim>\<open>try\<close> around the coercion catches
  \<^verbatim>\<open>ValueError\<close> and \<^verbatim>\<open>TypeError\<close> only; any other exception leaves the function.
\<close>

fun validate_fields ::
  "builtins \<Rightarrow> pydict \<Rightarrow> (string \<times> int \<times> int) list \<Rightarrow> pydict \<Rightarrow> py_exc + pydict" where
  "validate_fields B data [] validated = Inr validated"
| "validate_fields B data ((field, min_val, max_val) # rest) validated =
     (case map_of data field of
        None \<Rightarrow> validate_fields B data rest validated
      | Some v \<Rightarrow>
          (case py_float B v of
             Inr val \<Rightarrow>
               if int_le_float min_val val \<and> float_le_int val max_val
               then validate_fields B data rest (AList.update field (JFloat val) validated)
               else validate_fields B data rest validated
           | Inl e \<Rightarrow>
               if e = ValueError \<or> e = TypeError
               then validate_fields B data rest validated
               else Inl e))"

text \<open>
  The result is \<open>Inr None\<close> where the source returns \<^verbatim>\<open>None\<close>, \<open>Inr (Some validated)\<close> where
  it returns the dictionary, and \<open>Inl e\<close> where an exception leaves the function.
\<close>

definition validate_sensor_data :: "builtins \<Rightarrow> jvalue \<Rightarrow> py_exc + pydict option" where
  "validate_sensor_data B data =
     (case data of
        JDict d \<Rightarrow>
          (case map_of d ''nodeId'' of
             None \<Rightarrow> Inr None
           | Some nid \<Rightarrow>
               (case py_int B nid of
                  Inl e \<Rightarrow> if e = ValueError \<or> e = TypeError then Inr None else Inl e
                | Inr node_id \<Rightarrow>
                    if \<not> (1 \<le> node_id \<and> node_id \<le> 3) then Inr None
                    else
                      let validated0 = [(''nodeId'', JInt node_id)];
                          validated1 =
                            (case map_of d ''nodeType'' of
                               None \<Rightarrow> validated0
                             | Some t \<Rightarrow> AList.update ''nodeType'' (JStr (py_str B t)) validated0)
                      in (case validate_fields B d numeric_fields validated1 of
                            Inl e \<Rightarrow> Inl e
                          | Inr validated \<Rightarrow>
                              Inr (if 1 < length validated then Some validated else None))))
      | _ \<Rightarrow> Inr None)"

subsection \<open>The candidate frame of a received line\<close>

text \<open>
  \<^verbatim>\<open>line.index(c)\<close> and \<^verbatim>\<open>line.rindex(c)\<close>; \<open>None\<close> stands for the \<^verbatim>\<open>ValueError\<close> of a
  character that does not occur. \<^verbatim>\<open>line[a:b]\<close> for \<open>0 \<le> a\<close> and \<open>0 \<le> b\<close> is empty when
  \<open>b \<le> a\<close>.
\<close>

fun index :: "string \<Rightarrow> char \<Rightarrow> nat option" where
  "index [] c = None"
| "index (x # xs) c = (if x = c then Some 0 else map_option Suc (index xs c))"

definition rindex :: "string \<Rightarrow> char \<Rightarrow> nat option" where
  "rindex s c = map_option (\<lambda>k. length s - 1 - k) (index (rev s) c)"

definition slice :: "string \<Rightarrow> nat \<Rightarrow> nat \<Rightarrow> string" where
  "slice s a b = take (b - a) (drop a s)"

text \<open>
  The string handed to \<^verbatim>\<open>json.loads\<close> in \<^verbatim>\<open>SerialReader.run\<close> for a decoded and stripped
  line, or \<open>None\<close> when the line is skipped because it lacks one of the two braces.
\<close>

definition json_candidate :: "string \<Rightarrow> string option" where
  "json_candidate line =
     (if CHR ''{'' \<in> set line \<and> CHR ''}'' \<in> set line
      then (case (index line CHR ''{'', rindex line CHR ''}'') of
              (Some json_start, Some r) \<Rightarrow> Some (slice line json_start (r + 1))
            | _ \<Rightarrow> None)
      else None)"

text \<open>
  The specification's reading of the same step, for comparison: the first opening brace
  together with the closing brace that balances it. \<open>balanced_len s d\<close> is the number of
  characters of \<open>s\<close> up to and including the brace that closes depth \<open>d + 1\<close>.
\<close>

fun balanced_len :: "string \<Rightarrow> nat \<Rightarrow> nat option" where
  "balanced_len [] d = None"
| "balanced_len (x # xs) d =
     (if x = CHR ''}'' then (case d of 0 \<Rightarrow> Some 1 | Suc d' \<Rightarrow> map_option Suc (balanced_len xs d'))
      else if x = CHR ''{'' then map_option Suc (balanced_len xs (Suc d))
      else map_option Suc (balanced_len xs d))"

definition spec_first_balanced :: "string \<Rightarrow> string option" where
  "spec_first_balanced line =
     (case index line CHR ''{'' of
        None \<Rightarrow> None
      | Some i \<Rightarrow>
          (case balanced_len (drop (Suc i) line) 0 of
             None \<Rightarrow> None
           | Some n \<Rightarrow> Some (take (Suc n) (drop i line))))"

subsection \<open>What a validation keeps\<close>

text \<open>
  Three functions that describe the dictionary \<open>validate_sensor_data\<close> builds, used to
  reason about it: the outcome of one numeric field, the entries the loop adds for a list of
  fields, and the entries written before the loop.
\<close>

definition field_out :: "builtins \<Rightarrow> pydict \<Rightarrow> string \<times> int \<times> int \<Rightarrow> jvalue option" where
  "field_out B d fld =
     (case fld of (f, lo, hi) \<Rightarrow>
        (case map_of d f of
           None \<Rightarrow> None
         | Some v \<Rightarrow>
             (case py_float B v of
                Inr val \<Rightarrow> if int_le_float lo val \<and> float_le_int val hi then Some (JFloat val) else None
              | Inl e \<Rightarrow> None)))"

definition kept :: "builtins \<Rightarrow> pydict \<Rightarrow> (string \<times> int \<times> int) list \<Rightarrow> pydict" where
  "kept B d fs = List.map_filter (\<lambda>fld. map_option (Pair (fst fld)) (field_out B d fld)) fs"

definition head_part :: "builtins \<Rightarrow> pydict \<Rightarrow> int \<Rightarrow> pydict" where
  "head_part B d node_id =
     (''nodeId'', JInt node_id) #
     (case map_of d ''nodeType'' of None \<Rightarrow> [] | Some t \<Rightarrow> [(''nodeType'', JStr (py_str B t))])"

section \<open>DatabaseManager\<close>

text \<open>
  A \<^verbatim>\<open>datetime\<close> is a number of microseconds on the local clock, a \<^verbatim>\<open>timedelta\<close> the
  difference of two. \<^verbatim>\<open>total_seconds()\<close> divides by \<open>10^6\<close>; the program only compares
  the quotient with 5 and with 60, and on those the rounded float and the exact quotient
  agree. A stored timestamp is the text \<^verbatim>\<open>YYYY-MM-DD HH:MM:SS\<close>, held here as the number of
  whole seconds it denotes, whose order is the order of the texts. The sample rows carry
  the local time that \<open>insert_sample_data\<close> formats; a row written without a timestamp takes
  the column default \<^verbatim>\<open>CURRENT_TIMESTAMP\<close>, which is SQLite's own reading of the time, in
  UTC.
\<close>

type_synonym datetime = int

definition total_seconds :: "int \<Rightarrow> rat" where
  "total_seconds d = of_int d / 1000000"

text \<open>One row of table \<^verbatim>\<open>sensor_data\<close>, column by column.\<close>

record row =
  col_id :: nat
  col_timestamp :: int
  col_node_id :: int
  col_node_type :: jvalue
  col_pm25 :: "pyfloat option"
  col_pm10 :: "pyfloat option"
  col_eco2 :: "pyfloat option"
  col_tvoc :: "pyfloat option"
  col_co :: "pyfloat option"
  col_no2 :: "pyfloat option"
  col_temperature :: "pyfloat option"
  col_humidity :: "pyfloat option"
  col_data_quality :: string

text \<open>
  The database file: the rows of \<^verbatim>\<open>sensor_data\<close> in insertion order, or \<open>None\<close> when the
  table does not exist, and the counter behind \<^verbatim>\<open>AUTOINCREMENT\<close>. The manager: whether
  \<^verbatim>\<open>conn\<close> and \<^verbatim>\<open>cursor\<close> are set, the file as the connection sees it, and the number of
  calls made into \<^verbatim>\<open>sqlite3\<close> so far.
\<close>

record database =
  sensor_data :: "row list option"
  autoinc :: nat

record database_manager =
  connected :: bool
  db_file :: database
  calls :: nat

text \<open>
  Any call into \<^verbatim>\<open>sqlite3\<close> can raise \<^verbatim>\<open>sqlite3.Error\<close> for reasons outside the program
  (the medium is full, locked or gone). The oracle \<open>F\<close> says which calls do: \<open>F n\<close> holds
  when the call number \<open>n\<close> of the run raises. A statement also raises when the file
  cannot take it (no such table, table exists already): then its effect is \<open>None\<close>. The
  boolean returned is \<open>True\<close> when the call returned and \<open>False\<close> when it raised.

  A second oracle \<open>T\<close> is SQLite's clock: \<open>T n\<close> is the value of \<^verbatim>\<open>CURRENT_TIMESTAMP\<close> during
  the call number \<open>n\<close>, in whole seconds of UTC. It is independent of the local clock that
  \<^verbatim>\<open>datetime.now()\<close> reads.
\<close>

definition execute ::
  "(nat \<Rightarrow> bool) \<Rightarrow> (database \<Rightarrow> database option) \<Rightarrow> database_manager \<Rightarrow> bool \<times> database_manager" where
  "execute F stmt dbm =
     (let dbm' = dbm\<lparr>calls := calls dbm + 1\<rparr> in
      if F (calls dbm) then (False, dbm')
      else (case stmt (db_file dbm) of
              None \<Rightarrow> (False, dbm')
            | Some f \<Rightarrow> (True, dbm'\<lparr>db_file := f\<rparr>)))"

text \<open>The statements of a \<^verbatim>\<open>try\<close> block in order, up to the first that raises.\<close>

fun run_try ::
  "(database_manager \<Rightarrow> bool \<times> database_manager) list \<Rightarrow> database_manager \<Rightarrow> bool \<times> database_manager" where
  "run_try [] dbm = (True, dbm)"
| "run_try (s # ss) dbm = (case s dbm of (True, dbm') \<Rightarrow> run_try ss dbm' | (False, dbm') \<Rightarrow> (False, dbm'))"

text \<open>The SQL statements of the program, as effects on the file.\<close>

definition drop_sensor_data :: "database \<Rightarrow> database option" where
  "drop_sensor_data f = Some (f\<lparr>sensor_data := None, autoinc := 0\<rparr>)"

definition create_sensor_data :: "database \<Rightarrow> database option" where
  "create_sensor_data f = (case sensor_data f of None \<Rightarrow> Some (f\<lparr>sensor_data := Some []\<rparr>) | Some rows \<Rightarrow> None)"

definition create_index :: "database \<Rightarrow> database option" where
  "create_index f = (case sensor_data f of None \<Rightarrow> None | Some rows \<Rightarrow> Some f)"

definition create_daily_statistics :: "database \<Rightarrow> database option" where
  "create_daily_statistics f = Some f"

definition insert_row :: "row \<Rightarrow> database \<Rightarrow> database option" where
  "insert_row r f =
     (case sensor_data f of
        None \<Rightarrow> None
      | Some rows \<Rightarrow>
          Some (f\<lparr>sensor_data := Some (rows @ [r\<lparr>col_id := Suc (autoinc f)\<rparr>]),
                  autoinc := Suc (autoinc f)\<rparr>))"

definition select_sensor_data :: "database \<Rightarrow> database option" where
  "select_sensor_data f = (case sensor_data f of None \<Rightarrow> None | Some rows \<Rightarrow> Some f)"

definition commit :: "database \<Rightarrow> database option" where
  "commit f = Some f"

text \<open>The rows a run of inserts adds when the counter stands at \<open>s\<close>.\<close>

fun assign_ids :: "nat \<Rightarrow> row list \<Rightarrow> row list" where
  "assign_ids s [] = []"
| "assign_ids s (r # rs) = r\<lparr>col_id := Suc s\<rparr> # assign_ids (Suc s) rs"

subsection \<open>insert\_sample\_data and init\_database\<close>

text \<open>
  The row written for iteration \<open>i\<close> of the outer loop and node \<open>node\<close>. \<open>rnd k\<close> is the
  value of the call number \<open>k\<close> of \<^verbatim>\<open>random.uniform\<close>; each row takes eight, in the order of
  the dictionary literal. The timestamp is \<^verbatim>\<open>now - timedelta(minutes=i*10)\<close>, formatted to
  the second.
\<close>

definition sample_row :: "(nat \<Rightarrow> pyfloat) \<Rightarrow> datetime \<Rightarrow> nat \<Rightarrow> nat \<Rightarrow> row" where
  "sample_row rnd now i j =
     \<lparr>col_id = 0,
      col_timestamp = (now - int i * 10 * 60000000) div 1000000,
      col_node_id = int j + 1,
      col_node_type = JStr ''ESP32-S3'',
      col_pm25 = Some (rnd (8 * (3 * i + j))),
      col_pm10 = Some (rnd (8 * (3 * i + j) + 1)),
      col_eco2 = Some (rnd (8 * (3 * i + j) + 2)),
      col_tvoc = Some (rnd (8 * (3 * i + j) + 3)),
      col_co = Some (rnd (8 * (3 * i + j) + 4)),
      col_no2 = Some (rnd (8 * (3 * i + j) + 5)),
      col_temperature = Some (rnd (8 * (3 * i + j) + 6)),
      col_humidity = Some (rnd (8 * (3 * i + j) + 7)),
      col_data_quality = ''GOOD''\<rparr>"

text \<open>The rows of the two nested loops, \<open>j = 0, 1, 2\<close> standing for nodes 1, 2, 3.\<close>

definition sample_rows :: "(nat \<Rightarrow> pyfloat) \<Rightarrow> datetime \<Rightarrow> row list" where
  "sample_rows rnd now = concat (map (\<lambda>i. map (sample_row rnd now i) [0, 1, 2]) [0..<100])"

definition insert_sample_data ::
  "(nat \<Rightarrow> bool) \<Rightarrow> (nat \<Rightarrow> pyfloat) \<Rightarrow> datetime \<Rightarrow> database_manager \<Rightarrow> bool \<times> database_manager" where
  "insert_sample_data F rnd now dbm =
     run_try (map (\<lambda>r. execute F (insert_row r)) (sample_rows rnd now) @ [execute F commit]) dbm"

text \<open>
  \<open>init_database\<close> on the file found at start. When \<^verbatim>\<open>sqlite3.connect\<close> raises, \<^verbatim>\<open>conn\<close> and
  \<^verbatim>\<open>cursor\<close> stay \<^verbatim>\<open>None\<close>; the \<^verbatim>\<open>except\<close> clause prints and the constructor returns.
\<close>

definition init_database ::
  "(nat \<Rightarrow> bool) \<Rightarrow> (nat \<Rightarrow> pyfloat) \<Rightarrow> datetime \<Rightarrow> database \<Rightarrow> database_manager" where
  "init_database F rnd now f =
     (if F 0 then \<lparr>connected = False, db_file = f, calls = 1\<rparr>
      else snd (run_try
                 [execute F drop_sensor_data,
                  execute F create_sensor_data,
                  execute F create_index,
                  execute F create_index,
                  execute F create_daily_statistics,
                  insert_sample_data F rnd now,
                  execute F commit]
                 \<lparr>connected = True, db_file = f, calls = 1\<rparr>))"

subsection \<open>validate\_data and insert\_sensor\_data\<close>

text \<open>\<^verbatim>\<open>data.get(key)\<close>: Python's \<^verbatim>\<open>None\<close> for a missing key.\<close>

definition dict_get :: "pydict \<Rightarrow> string \<Rightarrow> jvalue" where
  "dict_get d k = (case map_of d k of None \<Rightarrow> JNull | Some v \<Rightarrow> v)"

definition validate_data :: "builtins \<Rightarrow> jvalue \<Rightarrow> int \<Rightarrow> int \<Rightarrow> py_exc + pyfloat option" where
  "validate_data B v min_val max_val =
     (if v = JNull then Inr None
      else (case py_float B v of
              Inr val \<Rightarrow> if int_le_float min_val val \<and> float_le_int val max_val then Inr (Some val) else Inr None
            | Inl e \<Rightarrow> if e = ValueError \<or> e = TypeError then Inr None else Inl e))"

fun first_raised :: "(py_exc + 'a) list \<Rightarrow> py_exc option" where
  "first_raised [] = None"
| "first_raised (Inl e # xs) = Some e"
| "first_raised (Inr v # xs) = first_raised xs"

fun returned :: "py_exc + 'a option \<Rightarrow> 'a option" where
  "returned (Inr v) = v"
| "returned (Inl e) = None"

text \<open>
  The result is the exception that leaves the function, or the boolean it returns, with
  the manager afterwards. Only \<^verbatim>\<open>sqlite3.Error\<close> is caught. The statement names no
  timestamp, so the row takes \<^verbatim>\<open>CURRENT_TIMESTAMP\<close> as SQLite reads it during the
  \<^verbatim>\<open>INSERT\<close>. There is no \<^verbatim>\<open>rollback\<close>: when the \<^verbatim>\<open>INSERT\<close> has executed and \<^verbatim>\<open>commit\<close> raises,
  the row stays in the open transaction of the connection, and the next \<^verbatim>\<open>commit\<close> that
  returns stores it.
\<close>

definition insert_sensor_data ::
  "builtins \<Rightarrow> (nat \<Rightarrow> bool) \<Rightarrow> (nat \<Rightarrow> int) \<Rightarrow> int \<Rightarrow> pydict \<Rightarrow> database_manager \<Rightarrow>
     (py_exc + bool) \<times> database_manager" where
  "insert_sensor_data B F T node data dbm =
     (let pm25 = validate_data B (dict_get data ''pm25'') 0 10000;
          pm10 = validate_data B (dict_get data ''pm10'') 0 10000;
          eco2 = validate_data B (dict_get data ''eco2'') 0 10000;
          tvoc = validate_data B (dict_get data ''tvoc'') 0 10000;
          co = validate_data B (dict_get data ''co'') 0 10000;
          no2 = validate_data B (dict_get data ''no2'') 0 10000;
          temp = validate_data B (dict_get data ''temp'') (- 50) 100;
          humidity = validate_data B (dict_get data ''humidity'') 0 100
      in case first_raised [pm25, pm10, eco2, tvoc, co, no2, temp, humidity] of
           Some e \<Rightarrow> (Inl e, dbm)
         | None \<Rightarrow>
             if \<not> connected dbm then (Inl AttributeError, dbm)
             else
               (case run_try
                       [execute F (insert_row
                          \<lparr>col_id = 0,
                           col_timestamp = T (calls dbm),
                           col_node_id = node,
                           col_node_type = (case map_of data ''nodeType'' of None \<Rightarrow> JStr ''Unknown'' | Some t \<Rightarrow> t),
                           col_pm25 = returned pm25,
                           col_pm10 = returned pm10,
                           col_eco2 = returned eco2,
                           col_tvoc = returned tvoc,
                           col_co = returned co,
                           col_no2 = returned no2,
                           col_temperature = returned temp,
                           col_humidity = returned humidity,
                           col_data_quality = ''GOOD''\<rparr>),
                        execute F commit]
                       dbm of
                  (ok, dbm') \<Rightarrow> (Inr ok, dbm')))"

subsection \<open>get\_recent\_readings and get\_statistics\<close>

text \<open>
  \<^verbatim>\<open>ORDER BY timestamp DESC LIMIT ?\<close>. SQL leaves the order of rows with equal timestamps
  open; here the later row comes first, as a backward scan of the timestamp index gives
  it. A negative limit is no limit. On \<^verbatim>\<open>sqlite3.Error\<close> the result is the empty list.
\<close>

definition get_recent_readings ::
  "(nat \<Rightarrow> bool) \<Rightarrow> int \<Rightarrow> database_manager \<Rightarrow> (py_exc + row list) \<times> database_manager" where
  "get_recent_readings F limit dbm =
     (if \<not> connected dbm then (Inl AttributeError, dbm)
      else (case execute F select_sensor_data dbm of
              (True, dbm') \<Rightarrow>
                (let rows = rev (sort_key col_timestamp (case sensor_data (db_file dbm') of None \<Rightarrow> [] | Some rs \<Rightarrow> rs))
                 in (Inr (if limit < 0 then rows else take (nat limit) rows), dbm'))
            | (False, dbm') \<Rightarrow> (Inr [], dbm')))"

record statistics =
  total_records :: nat
  node_counts :: "(int \<times> nat) list"
  db_size_kb :: rat
  first_record :: "int option"
  last_record :: "int option"

text \<open>
  The three queries of \<open>get_statistics\<close> on the rows. \<open>st_size\<close> is the size of the file in
  bytes as \<^verbatim>\<open>stat()\<close> reports it. On \<^verbatim>\<open>sqlite3.Error\<close> the result is \<^verbatim>\<open>None\<close>.
\<close>

definition statistics_of :: "nat \<Rightarrow> row list \<Rightarrow> statistics" where
  "statistics_of st_size rows =
     \<lparr>total_records = length rows,
      node_counts = map (\<lambda>n. (n, length (filter (\<lambda>r. col_node_id r = n) rows)))
                      (sort (remdups (map col_node_id rows))),
      db_size_kb = of_nat st_size / 1024,
      first_record = (if rows = [] then None else Some (Min (set (map col_timestamp rows)))),
      last_record = (if rows = [] then None else Some (Max (set (map col_timestamp rows))))\<rparr>"

definition get_statistics ::
  "(nat \<Rightarrow> bool) \<Rightarrow> nat \<Rightarrow> database_manager \<Rightarrow> (py_exc + statistics option) \<times> database_manager" where
  "get_statistics F st_size dbm =
     (if \<not> connected dbm then (Inl AttributeError, dbm)
      else (case run_try [execute F select_sensor_data, execute F select_sensor_data,
                          execute F select_sensor_data] dbm of
              (True, dbm') \<Rightarrow>
                (Inr (Some (statistics_of st_size (case sensor_data (db_file dbm') of None \<Rightarrow> [] | Some rs \<Rightarrow> rs))), dbm')
            | (False, dbm') \<Rightarrow> (Inr None, dbm')))"

section \<open>MainWindow\<close>

datatype status = ONLINE | OFFLINE

datatype consumer = NodeWidget | GraphWidget | InfographicsWidget | GeneralUserDashboard

text \<open>
  The state the pipeline keeps: \<^verbatim>\<open>node_data\<close> (node id to the last Reading and its arrival
  time), \<^verbatim>\<open>last_db_save\<close>, the database manager, and the status texts of the three node
  widgets and of the three labels of the general dashboard.
\<close>

record main_window =
  node_data :: "(int \<times> pydict \<times> datetime) list"
  last_db_save :: "(int \<times> datetime option) list"
  db_manager :: database_manager
  node_widgets :: "(int \<times> status) list"
  node_status_labels :: "(int \<times> status) list"

definition main_window_init ::
  "(nat \<Rightarrow> bool) \<Rightarrow> (nat \<Rightarrow> pyfloat) \<Rightarrow> datetime \<Rightarrow> database \<Rightarrow> main_window" where
  "main_window_init F rnd now f =
     \<lparr>node_data = [],
      last_db_save = [(1, None), (2, None), (3, None)],
      db_manager = init_database F rnd now f,
      node_widgets = [(1, OFFLINE), (2, OFFLINE), (3, OFFLINE)],
      node_status_labels = [(1, OFFLINE), (2, OFFLINE), (3, OFFLINE)]\<rparr>"

text \<open>Setting a status text where the dictionary has the node, as the \<^verbatim>\<open>in\<close> tests do.\<close>

definition set_status :: "int \<Rightarrow> status \<Rightarrow> (int \<times> status) list \<Rightarrow> (int \<times> status) list" where
  "set_status n s labels = (if n \<in> fst ` set labels then AList.update n s labels else labels)"

subsection \<open>handle\_data\<close>

text \<open>
  The four \<^verbatim>\<open>update_data\<close> calls are widget code. What matters here is the order of the
  calls, that \<^verbatim>\<open>NodeWidget.update_data\<close> and \<^verbatim>\<open>GeneralUserDashboard.update_data\<close> begin by
  setting the status text to ONLINE, and whether a call raises: \<open>R c n data\<close> is the
  exception that consumer \<open>c\<close> raises on this Reading, if any. \<open>handle_data\<close> has no
  \<^verbatim>\<open>try\<close>, so the first exception leaves it. The result is that exception if any, the window
  afterwards, and the consumers called, in order.
\<close>

fun dispatch ::
  "(consumer \<Rightarrow> int \<Rightarrow> pydict \<Rightarrow> py_exc option) \<Rightarrow> int \<Rightarrow> pydict \<Rightarrow>
   (consumer \<times> (main_window \<Rightarrow> main_window)) list \<Rightarrow> main_window \<Rightarrow> consumer list \<Rightarrow>
   py_exc option \<times> main_window \<times> consumer list" where
  "dispatch R n data [] w called = (None, w, called)"
| "dispatch R n data ((c, effect) # cs) w called =
     (case R c n data of
        Some e \<Rightarrow> (Some e, effect w, called @ [c])
      | None \<Rightarrow> dispatch R n data cs (effect w) (called @ [c]))"

text \<open>
  The signal \<^verbatim>\<open>data_received\<close> only carries dictionaries returned by
  \<open>validate_sensor_data\<close>, whose \<^verbatim>\<open>nodeId\<close> is an \<^verbatim>\<open>int\<close>; a dictionary with any other
  \<^verbatim>\<open>nodeId\<close> does not reach the slot and is left alone here.
\<close>

definition handle_data ::
  "(consumer \<Rightarrow> int \<Rightarrow> pydict \<Rightarrow> py_exc option) \<Rightarrow> datetime \<Rightarrow> pydict \<Rightarrow> main_window \<Rightarrow>
   py_exc option \<times> main_window \<times> consumer list" where
  "handle_data R now data w =
     (case map_of data ''nodeId'' of
        Some (JInt n) \<Rightarrow>
          if 1 \<le> n \<and> n \<le> 3 then
            (case dispatch R n data
                    ((if n \<in> fst ` set (node_widgets w)
                      then [(NodeWidget, \<lambda>w. w\<lparr>node_widgets := set_status n ONLINE (node_widgets w)\<rparr>)]
                      else []) @
                    [(GraphWidget, \<lambda>w. w),
                     (InfographicsWidget, \<lambda>w. w),
                     (GeneralUserDashboard,
                        \<lambda>w. w\<lparr>node_status_labels := set_status n ONLINE (node_status_labels w)\<rparr>)])
                    w [] of
               (Some e, w', called) \<Rightarrow> (Some e, w', called)
             | (None, w', called) \<Rightarrow>
                 (None, w'\<lparr>node_data := AList.update n (data, now) (node_data w')\<rparr>, called))
          else (None, w, [])
      | _ \<Rightarrow> (None, w, []))"

subsection \<open>check\_db\_save\<close>

text \<open>
  The loop over \<^verbatim>\<open>node_data.items()\<close>. The result is the exception that leaves the slot if
  any, the window afterwards, and the calls of \<open>insert_sensor_data\<close> that returned, each
  with the node and the boolean returned.
\<close>

fun save_loop ::
  "builtins \<Rightarrow> (nat \<Rightarrow> bool) \<Rightarrow> (nat \<Rightarrow> int) \<Rightarrow> datetime \<Rightarrow> (int \<times> pydict \<times> datetime) list \<Rightarrow>
   main_window \<Rightarrow> (int \<times> bool) list \<Rightarrow> py_exc option \<times> main_window \<times> (int \<times> bool) list" where
  "save_loop B F T current_time [] w tried = (None, w, tried)"
| "save_loop B F T current_time ((n, data, ts) # items) w tried =
     (case map_of (last_db_save w) n of
        None \<Rightarrow> (Some KeyError, w, tried)
      | Some last_save \<Rightarrow>
          if (case last_save of None \<Rightarrow> True | Some t \<Rightarrow> 5 \<le> total_seconds (current_time - t))
          then
            (case insert_sensor_data B F T n data (db_manager w) of
               (Inl e, dbm) \<Rightarrow> (Some e, w\<lparr>db_manager := dbm\<rparr>, tried)
             | (Inr success, dbm) \<Rightarrow>
                 save_loop B F T current_time items
                   (w\<lparr>db_manager := dbm,
                      last_db_save := (if success then AList.update n (Some current_time) (last_db_save w)
                                       else last_db_save w)\<rparr>)
                   (tried @ [(n, success)]))
          else save_loop B F T current_time items w tried)"

definition check_db_save ::
  "builtins \<Rightarrow> (nat \<Rightarrow> bool) \<Rightarrow> (nat \<Rightarrow> int) \<Rightarrow> datetime \<Rightarrow> main_window \<Rightarrow>
   py_exc option \<times> main_window \<times> (int \<times> bool) list" where
  "check_db_save B F T current_time w = save_loop B F T current_time (node_data w) w []"

subsection \<open>update\_all\<close>

text \<open>
  The sweep for offline nodes at the end of \<open>update_all\<close>. The refreshes of plots and
  tables before it are widget code; \<open>gui\<close> is the exception they raise, if any, and then
  the sweep does not run. The result is the exception if any, the window afterwards, and
  the nodes whose \<^verbatim>\<open>set_offline()\<close> was called, in order.
\<close>

fun offline_loop ::
  "datetime \<Rightarrow> (int \<times> pydict \<times> datetime) list \<Rightarrow> main_window \<Rightarrow> int list \<Rightarrow> main_window \<times> int list" where
  "offline_loop current_time [] w called = (w, called)"
| "offline_loop current_time ((n, data, ts) # items) w called =
     (if 60 < total_seconds (current_time - ts)
      then offline_loop current_time items
             (w\<lparr>node_widgets := set_status n OFFLINE (node_widgets w),
                node_status_labels := set_status n OFFLINE (node_status_labels w)\<rparr>)
             (if n \<in> fst ` set (node_widgets w) then called @ [n] else called)
      else offline_loop current_time items w called)"

definition update_all ::
  "py_exc option \<Rightarrow> datetime \<Rightarrow> main_window \<Rightarrow> py_exc option \<times> main_window \<times> int list" where
  "update_all gui current_time w =
     (case gui of
        Some e \<Rightarrow> (Some e, w, [])
      | None \<Rightarrow> (case offline_loop current_time (node_data w) w [] of (w', called) \<Rightarrow> (None, w', called)))"

subsection \<open>A run of the window\<close>

text \<open>
  The slots run one at a time on the GUI thread: \<open>handle_data\<close> for each Reading the serial
  thread emits, \<open>check_db_save\<close> and \<open>update_all\<close> on their one-second timers. A run is the
  list of these calls with the clock reading of each. An exception that leaves a slot does
  not end the run: the program imports \<^verbatim>\<open>pyqtgraph\<close>, whose exception hook reports the
  exception, and the event loop goes on to the next event with the window as the slot left
  it. The result of a run is the window at the end with the successful database writes,
  that is the calls of \<open>insert_sensor_data\<close> that returned \<^verbatim>\<open>True\<close>, each as the node and the
  clock reading of its tick, oldest first.
\<close>

definition successes :: "datetime \<Rightarrow> (int \<times> bool) list \<Rightarrow> (int \<times> datetime) list" where
  "successes t tried = map (\<lambda>(n, ok). (n, t)) (filter snd tried)"

datatype event =
    DataReceived pydict datetime
  | DbTimer datetime
  | UpdateTimer "py_exc option" datetime

fun run ::
  "builtins \<Rightarrow> (nat \<Rightarrow> bool) \<Rightarrow> (nat \<Rightarrow> int) \<Rightarrow> (consumer \<Rightarrow> int \<Rightarrow> pydict \<Rightarrow> py_exc option) \<Rightarrow>
   event list \<Rightarrow> main_window \<Rightarrow> (int \<times> datetime) list \<Rightarrow> main_window \<times> (int \<times> datetime) list" where
  "run B F T R [] w saved = (w, saved)"
| "run B F T R (DataReceived data t # evs) w saved =
     (case handle_data R t data w of (raised, w', called) \<Rightarrow> run B F T R evs w' saved)"
| "run B F T R (DbTimer t # evs) w saved =
     (case check_db_save B F T t w of
        (raised, w', tried) \<Rightarrow> run B F T R evs w' (saved @ successes t tried))"
| "run B F T R (UpdateTimer gui t # evs) w saved =
     (case update_all gui t w of (raised, w', called) \<Rightarrow> run B F T R evs w' saved)"

subsection \<open>Spacing of writes, and an environment without faults\<close>


text \<open>
  An environment for evaluating the model: no call into \<^verbatim>\<open>sqlite3\<close> raises, every call of
  \<^verbatim>\<open>random.uniform\<close> returns a fixed value inside its interval, and no consumer raises.
\<close>

definition no_faults :: "nat \<Rightarrow> bool" where
  "no_faults n = False"

definition fixed_draws :: "nat \<Rightarrow> pyfloat" where
  "fixed_draws k = Finite (of_nat ([100, 100, 1000, 1000, 100, 100, 25, 50] ! (k mod 8)))"

definition no_consumer_raises :: "consumer \<Rightarrow> int \<Rightarrow> pydict \<Rightarrow> py_exc option" where
  "no_consumer_raises c n data = None"


text \<open>
  Three more pieces of environment for evaluation: \<^verbatim>\<open>sqlite3.connect\<close> raises (the file
  cannot be opened), the node widget's \<^verbatim>\<open>update_data\<close> raises, and a row that an earlier
  run of the program stored.
\<close>

definition connect_fails :: "nat \<Rightarrow> bool" where
  "connect_fails n = (n = 0)"

definition node_widget_raises :: "consumer \<Rightarrow> int \<Rightarrow> pydict \<Rightarrow> py_exc option" where
  "node_widget_raises c n data = (if c = NodeWidget then Some ValueError else None)"

definition earlier_row :: row where
  "earlier_row =
     \<lparr>col_id = 1, col_timestamp = - 86400, col_node_id = 2, col_node_type = JStr ''ESP32'',
      col_pm25 = Some (Finite 12), col_pm10 = None, col_eco2 = Some (Finite 900), col_tvoc = None,
      col_co = None, col_no2 = None, col_temperature = None, col_humidity = None,
      col_data_quality = ''GOOD''\<rparr>"

text \<open>
  And three for the persistence tick. SQLite's clock on a machine whose local time is UTC:
  it reads second 1 up to the first write of a run and its commit (the calls 308 and 309;
  initialization makes the calls 0 to 307), and second \<open>s\<close> from the next call on. A
  database whose only fault is that the commit of that first write raises
  \<^verbatim>\<open>sqlite3.Error\<close>. And the row that \<open>insert_sensor_data\<close> writes for the Reading
  \<^verbatim>\<open>{'nodeId': 1, 'pm25': 12.0}\<close>, with its id and its timestamp.
\<close>

definition db_clock :: "int \<Rightarrow> nat \<Rightarrow> int" where
  "db_clock s n = (if n < 310 then 1 else s)"



section \<open>Frame extraction: first opening brace to last closing brace\<close>

lemma index_None_iff: "index s c = None \<longleftrightarrow> c \<notin> set s"
  by (induction s) auto

lemma index_Some_split:
  "index s c = Some k \<Longrightarrow> k < length s \<and> s ! k = c \<and> c \<notin> set (take k s)"
proof (induction s arbitrary: k)
  case Nil
  then show ?case by simp
next
  case (Cons x xs)
  show ?case
  proof (cases "x = c")
    case True
    with Cons.prems show ?thesis by simp
  next
    case False
    with Cons.prems obtain j where j: "index xs c = Some j" "k = Suc j"
      by auto
    from Cons.IH [OF j(1)] j(2) False show ?thesis by simp
  qed
qed

lemma rindex_Some_split:
  assumes "rindex s c = Some r"
  shows "r < length s \<and> s ! r = c \<and> c \<notin> set (drop (Suc r) s)"
proof -
  from assms obtain k where k: "index (rev s) c = Some k" and r: "r = length s - 1 - k"
    by (auto simp: rindex_def)
  from index_Some_split [OF k]
  have kl: "k < length s" and kc: "rev s ! k = c" and kn: "c \<notin> set (take k (rev s))"
    by simp_all
  from kl r have rl: "r < length s" by simp
  from kl r have rk: "length s - Suc k = r" by simp
  from kc kl rk have sc: "s ! r = c" by (simp add: rev_nth)
  from kl r have "length s - k = Suc r" by simp
  then have "take k (rev s) = rev (drop (Suc r) s)" by (simp add: take_rev)
  with kn have "c \<notin> set (drop (Suc r) s)" by simp
  with rl sc show ?thesis by simp
qed

text \<open>
  C6, as the code has it. For a line with both braces the candidate is the text from the
  first opening brace to the last closing brace of the line, both included: nothing before
  that opening brace and nothing after that closing brace is part of it, and every
  character between them is, whatever it is. When the last closing brace comes before the
  first opening brace the candidate is empty.
\<close>

theorem json_candidate_first_to_last:
  assumes "CHR ''{'' \<in> set line" and "CHR ''}'' \<in> set line"
  shows "\<exists>i r cand. index line CHR ''{'' = Some i \<and> rindex line CHR ''}'' = Some r \<and>
           json_candidate line = Some cand \<and>
           CHR ''{'' \<notin> set (take i line) \<and> CHR ''}'' \<notin> set (drop (Suc r) line) \<and>
           (if i \<le> r
            then line = take i line @ cand @ drop (Suc r) line \<and>
                 hd cand = CHR ''{'' \<and> last cand = CHR ''}''
            else cand = [])"
proof -
  from assms(1) obtain i where i: "index line CHR ''{'' = Some i"
    using index_None_iff [of line "CHR ''{''"] by (cases "index line CHR ''{''") auto
  from assms(2) have "CHR ''}'' \<in> set (rev line)" by simp
  then obtain k where "index (rev line) CHR ''}'' = Some k"
    using index_None_iff [of "rev line" "CHR ''}''"] by (cases "index (rev line) CHR ''}''") auto
  then obtain r where r: "rindex line CHR ''}'' = Some r"
    by (simp add: rindex_def)
  define cand where "cand = slice line i (r + 1)"
  from assms i r have jc: "json_candidate line = Some cand"
    by (simp add: json_candidate_def cand_def)
  from index_Some_split [OF i]
  have il: "i < length line" and ic: "line ! i = CHR ''{''"
    and ipre: "CHR ''{'' \<notin> set (take i line)" by simp_all
  from rindex_Some_split [OF r]
  have rl: "r < length line" and rc: "line ! r = CHR ''}''"
    and rpost: "CHR ''}'' \<notin> set (drop (Suc r) line)" by simp_all
  have shape: "if i \<le> r
            then line = take i line @ cand @ drop (Suc r) line \<and>
                 hd cand = CHR ''{'' \<and> last cand = CHR ''}''
            else cand = []"
  proof (cases "i \<le> r")
    case True
    have c1: "cand = take (Suc r - i) (drop i line)" by (simp add: cand_def slice_def)
    from True have "drop (Suc r) line = drop (Suc r - i) (drop i line)" by simp
    with c1 have "cand @ drop (Suc r) line = drop i line"
      by (simp only: append_take_drop_id)
    then have split: "line = take i line @ cand @ drop (Suc r) line" by simp
    from True rl have len: "length cand = Suc r - i" by (simp add: c1)
    from True rl il have "hd cand = line ! i"
      by (simp add: c1 hd_conv_nth)
    with ic have h: "hd cand = CHR ''{''" by simp
    from len True have ne: "cand \<noteq> []" by auto
    from ne have "last cand = cand ! (length cand - 1)" by (simp add: last_conv_nth)
    also from len True rl have "\<dots> = line ! r" by (simp add: c1)
    finally have "last cand = CHR ''}''" using rc by simp
    with split h True show ?thesis by simp
  next
    case False
    then have "cand = []" by (simp add: cand_def slice_def)
    with False show ?thesis by simp
  qed
  from i r jc ipre rpost shape show ?thesis by blast
qed

theorem json_candidate_first_to_last_witness:
  "CHR ''{'' \<in> set ''x{1}{2}y'' \<and> CHR ''}'' \<in> set ''x{1}{2}y'' \<and>
   json_candidate ''x{1}{2}y'' = Some ''{1}{2}'' \<and>
   (\<exists>i r cand. index ''x{1}{2}y'' CHR ''{'' = Some i \<and> rindex ''x{1}{2}y'' CHR ''}'' = Some r \<and>
           json_candidate ''x{1}{2}y'' = Some cand \<and>
           CHR ''{'' \<notin> set (take i ''x{1}{2}y'') \<and> CHR ''}'' \<notin> set (drop (Suc r) ''x{1}{2}y'') \<and>
           (if i \<le> r
            then ''x{1}{2}y'' = take i ''x{1}{2}y'' @ cand @ drop (Suc r) ''x{1}{2}y'' \<and>
                 hd cand = CHR ''{'' \<and> last cand = CHR ''}''
            else cand = []))"
proof -
  have a: "CHR ''{'' \<in> set ''x{1}{2}y''" and b: "CHR ''}'' \<in> set ''x{1}{2}y''" by simp_all
  have c: "json_candidate ''x{1}{2}y'' = Some ''{1}{2}''"
    by (simp add: json_candidate_def rindex_def slice_def)
  note d = json_candidate_first_to_last [OF a b]
  from a b c d show ?thesis by (intro conjI)
qed

text \<open>
  C6, as the specification words it, fails: on a line that carries two frames the
  candidate runs to the end of the second frame, while the first balanced pair ends with
  the first frame.
\<close>

theorem json_candidate_not_first_balanced:
  "json_candidate ''{}{}'' = Some ''{}{}'' \<and> spec_first_balanced ''{}{}'' = Some ''{}'' \<and>
   json_candidate ''{}{}'' \<noteq> spec_first_balanced ''{}{}''"
  by (simp add: json_candidate_def rindex_def slice_def spec_first_balanced_def)

section \<open>Validation: what the returned dictionary holds\<close>

lemma kept_Nil: "kept B d [] = []"
  by (simp add: kept_def map_filter_simps)

lemma kept_Cons:
  "kept B d (fld # fs) =
     (case field_out B d fld of None \<Rightarrow> kept B d fs | Some v \<Rightarrow> (fst fld, v) # kept B d fs)"
  by (simp add: kept_def map_filter_simps split: option.splits)

lemma update_fresh: "k \<notin> fst ` set al \<Longrightarrow> AList.update k v al = al @ [(k, v)]"
  by (induction al) auto

lemma keys_kept: "fst ` set (kept B d fs) \<subseteq> fst ` set fs"
  by (induction fs) (auto simp: kept_Nil kept_Cons split: option.splits)

lemma validate_fields_kept:
  "validate_fields B d fs acc = Inr res \<Longrightarrow> distinct (map fst fs) \<Longrightarrow>
   fst ` set fs \<inter> fst ` set acc = {} \<Longrightarrow> res = acc @ kept B d fs"
proof (induction fs arbitrary: acc)
  case Nil
  then show ?case by (simp add: kept_Nil)
next
  case (Cons fld fs)
  obtain f lo hi where fld: "fld = (f, lo, hi)" by (cases fld)
  from Cons.prems(2) fld have dist: "distinct (map fst fs)" and fnew: "f \<notin> fst ` set fs" by auto
  from Cons.prems(3) fld have facc: "f \<notin> fst ` set acc"
    and fresh: "fst ` set fs \<inter> fst ` set acc = {}" by auto
  show ?case
  proof (cases "field_out B d fld")
    case None
    with Cons.prems(1) fld have "validate_fields B d fs acc = Inr res"
      by (auto simp: field_out_def split: option.splits sum.splits if_splits)
    from Cons.IH [OF this dist fresh] None show ?thesis by (simp add: kept_Cons)
  next
    case (Some v)
    with fld obtain val where v: "v = JFloat val"
      by (auto simp: field_out_def split: option.splits sum.splits if_splits)
    from Some Cons.prems(1) fld v
    have step: "validate_fields B d fs (AList.update f (JFloat val) acc) = Inr res"
      by (auto simp: field_out_def split: option.splits sum.splits if_splits)
    from facc have upd: "AList.update f (JFloat val) acc = acc @ [(f, JFloat val)]"
      by (rule update_fresh)
    from fresh fnew have "fst ` set fs \<inter> fst ` set (acc @ [(f, JFloat val)]) = {}" by auto
    from Cons.IH [OF step [unfolded upd] dist this] Some fld v show ?thesis
      by (simp add: kept_Cons)
  qed
qed

lemma validate_fields_no_raise:
  "(\<forall>fld \<in> set fs. \<forall>v. map_of r (fst fld) = Some v \<longrightarrow> (\<exists>x. py_float B v = Inr x)) \<Longrightarrow>
   distinct (map fst fs) \<Longrightarrow> fst ` set fs \<inter> fst ` set acc = {} \<Longrightarrow>
   validate_fields B r fs acc = Inr (acc @ kept B r fs)"
proof (induction fs arbitrary: acc)
  case Nil
  then show ?case by (simp add: kept_Nil)
next
  case (Cons fld fs)
  obtain f lo hi where fld: "fld = (f, lo, hi)" by (cases fld)
  from Cons.prems(2) fld have dist: "distinct (map fst fs)" and fnew: "f \<notin> fst ` set fs" by auto
  from Cons.prems(3) fld have facc: "f \<notin> fst ` set acc"
    and fresh: "fst ` set fs \<inter> fst ` set acc = {}" by auto
  from Cons.prems(1) have rest: "\<forall>fld \<in> set fs. \<forall>v. map_of r (fst fld) = Some v \<longrightarrow> (\<exists>x. py_float B v = Inr x)"
    by simp
  from Cons.prems(1) fld have here: "\<And>v. map_of r f = Some v \<Longrightarrow> \<exists>x. py_float B v = Inr x"
    by simp
  show ?case
  proof (cases "field_out B r fld")
    case None
    with fld here have "validate_fields B r (fld # fs) acc = validate_fields B r fs acc"
      by (fastforce simp: field_out_def split: option.splits sum.splits if_splits)
    with Cons.IH [OF rest dist fresh] None show ?thesis by (simp add: kept_Cons)
  next
    case (Some v)
    with fld obtain val where v: "v = JFloat val"
      by (auto simp: field_out_def split: option.splits sum.splits if_splits)
    from Some fld v
    have step: "validate_fields B r (fld # fs) acc = validate_fields B r fs (AList.update f (JFloat val) acc)"
      by (auto simp: field_out_def split: option.splits sum.splits if_splits)
    from facc have upd: "AList.update f (JFloat val) acc = acc @ [(f, JFloat val)]"
      by (rule update_fresh)
    from fresh fnew have "fst ` set fs \<inter> fst ` set (acc @ [(f, JFloat val)]) = {}" by auto
    from Cons.IH [OF rest dist this] step upd Some fld v show ?thesis
      by (simp add: kept_Cons)
  qed
qed

lemma map_of_kept:
  "distinct (map fst fs) \<Longrightarrow> fld \<in> set fs \<Longrightarrow> map_of (kept B d fs) (fst fld) = field_out B d fld"
proof (induction fs)
  case Nil
  then show ?case by simp
next
  case (Cons a fs)
  show ?case
  proof (cases "fld = a")
    case True
    have "fst a \<notin> fst ` set (kept B d fs)" using keys_kept [of B d fs] Cons.prems(1) by auto
    then have "map_of (kept B d fs) (fst a) = None" by (simp add: map_of_eq_None_iff)
    with True show ?thesis by (simp add: kept_Cons split: option.splits)
  next
    case False
    with Cons.prems have in_fs: "fld \<in> set fs" and ne: "fst fld \<noteq> fst a" by (auto simp: rev_image_eqI)
    from Cons.prems(1) have "distinct (map fst fs)" by simp
    from Cons.IH [OF this in_fs] ne show ?thesis by (simp add: kept_Cons split: option.splits)
  qed
qed

lemma map_of_kept_other: "k \<notin> fst ` set fs \<Longrightarrow> map_of (kept B d fs) k = None"
  using keys_kept [of B d fs] by (auto simp: map_of_eq_None_iff)

lemma kept_cong:
  "(\<forall>fld \<in> set fs. field_out B r fld = field_out B d fld) \<Longrightarrow> kept B r fs = kept B d fs"
  by (induction fs) (auto simp: kept_Nil kept_Cons split: option.splits)

lemma field_out_fixed:
  assumes "map_of r (fst fld) = field_out B d fld"
  shows "field_out B r fld = field_out B d fld"
proof (cases fld)
  case (fields f lo hi)
  show ?thesis
  proof (cases "field_out B d fld")
    case None
    with assms fields show ?thesis by (simp add: field_out_def)
  next
    case (Some v)
    with fields obtain val where "v = JFloat val" "int_le_float lo val \<and> float_le_int val hi"
      by (auto simp: field_out_def split: option.splits sum.splits if_splits)
    with assms Some fields show ?thesis by (simp add: field_out_def)
  qed
qed

lemma numeric_fields_distinct: "distinct (map fst numeric_fields)"
  by (simp add: numeric_fields_def)

lemma numeric_fields_keys:
  "fst ` set numeric_fields = {''pm25'', ''pm10'', ''eco2'', ''tvoc'', ''co'', ''no2'', ''temp'', ''humidity''}"
  by (simp add: numeric_fields_def)

lemma int_to_float_cases:
  assumes "int_to_float i = Inr x"
  shows "(\<bar>i\<bar> < 2 ^ 53 \<and> x = Finite (of_int i)) \<or>
         (2 ^ 53 \<le> \<bar>i\<bar> \<and> (\<exists>m. 2 ^ 53 \<le> m \<and> x = Finite (of_int (sgn i * m))))"
proof (cases "\<bar>i\<bar> < 2 ^ 53")
  case True
  with assms show ?thesis by (simp add: int_to_float_def)
next
  case False
  define a where "a = \<bar>i\<bar>"
  define e where "e = nat (bitlen a) - 53"
  define q where "q = a div 2 ^ e"
  define m where "m = (if 2 ^ (e - 1) < a mod 2 ^ e \<or> (a mod 2 ^ e = 2 ^ (e - 1) \<and> odd q) then q + 1 else q) * 2 ^ e"
  from False have big: "2 ^ 53 \<le> a" by (simp add: a_def)
  have "(0::int) < 2 ^ 53" by simp
  with big have pos: "0 < a" by linarith
  from bitlen_bounds [OF pos]
  have lo: "2 ^ nat (bitlen a - 1) \<le> a" and hi: "a < 2 ^ nat (bitlen a)" by simp_all
  from big hi have lt: "(2::int) ^ 53 < 2 ^ nat (bitlen a)" by linarith
  have len: "53 < nat (bitlen a)"
  proof (rule power_less_imp_less_exp)
    show "(1::int) < 2" by simp
    show "(2::int) ^ 53 < 2 ^ nat (bitlen a)" by (rule lt)
  qed
  then have e1: "1 \<le> e" by (simp add: e_def)
  from len have ee: "nat (bitlen a - 1) = 52 + e" by (simp add: e_def nat_diff_distrib)
  have p52: "(2::int) ^ 52 * 2 ^ e \<le> a" using lo unfolding ee power_add .
  have "((2::int) ^ 52 * 2 ^ e) div 2 ^ e \<le> a div 2 ^ e"
    by (rule zdiv_mono1 [OF p52]) simp
  then have q52: "(2::int) ^ 52 \<le> q" by (simp add: q_def)
  have qm: "q * 2 ^ e \<le> m" by (simp add: m_def)
  have "(2::int) ^ 1 \<le> 2 ^ e" using e1 by (intro power_increasing) simp_all
  then have two: "(2::int) \<le> 2 ^ e" by simp
  have "(2::int) ^ 52 * 2 \<le> q * 2 ^ e"
    by (rule mult_mono [OF q52 two]) (use pos q52 in simp_all)
  with qm have m53: "(2::int) ^ 53 \<le> m" by simp
  have unf: "int_to_float i =
      (if 2 ^ 1024 \<le> m then Inl OverflowError else Inr (Finite (of_int (sgn i * m))))"
    unfolding int_to_float_def Let_def m_def q_def e_def a_def
    by (simp only: False if_False)
  have "x = Finite (of_int (sgn i * m))"
  proof (cases "2 ^ 1024 \<le> m")
    case True
    with unf have "int_to_float i = Inl OverflowError" by (simp only: if_True)
    with assms show ?thesis by simp
  next
    case no: False
    with unf have "int_to_float i = Inr (Finite (of_int (sgn i * m)))" by (simp only: if_False)
    with assms show ?thesis by simp
  qed
  with False m53 show ?thesis by auto
qed

lemma int_in_small_range:
  assumes "int_to_float i = Inr x" and "- (2 ^ 53) < lo" and "hi < 2 ^ 53"
  shows "(int_le_float lo x \<and> float_le_int x hi) \<longleftrightarrow> (lo \<le> i \<and> i \<le> hi)"
    and "lo \<le> i \<and> i \<le> hi \<Longrightarrow> x = Finite (of_int i)"
proof -
  from int_to_float_cases [OF assms(1)]
  consider (small) "\<bar>i\<bar> < 2 ^ 53" "x = Finite (of_int i)"
    | (large) m where "2 ^ 53 \<le> \<bar>i\<bar>" "2 ^ 53 \<le> m" "x = Finite (of_int (sgn i * m))"
    by blast
  then have both: "((int_le_float lo x \<and> float_le_int x hi) \<longleftrightarrow> (lo \<le> i \<and> i \<le> hi)) \<and>
             (lo \<le> i \<and> i \<le> hi \<longrightarrow> x = Finite (of_int i))"
  proof cases
    case small
    then show ?thesis by simp
  next
    case large
    show ?thesis
    proof (cases "0 \<le> i")
      case True
      with large(1) have ipos: "2 ^ 53 \<le> i" by simp
      then have "sgn i = 1" by (smt (verit) sgn_if zero_less_power)
      with large(3) have x: "x = Finite (of_int m)" by simp
      from large(2) assms(3) have "hi < m" by linarith
      then have "\<not> (of_int m :: rat) \<le> of_int hi" by simp
      moreover from ipos assms(3) have "\<not> i \<le> hi" by linarith
      ultimately show ?thesis using x by simp
    next
      case False
      with large(1) have ineg: "i \<le> - (2 ^ 53)" by simp
      from False have "sgn i = - 1" by (simp add: sgn_if)
      with large(3) have x: "x = Finite (of_int (- m))" by simp
      from large(2) assms(2) have "- m < lo" by linarith
      then have "\<not> (of_int lo :: rat) \<le> of_int (- m)" by (simp only: of_int_le_iff not_le)
      moreover from ineg assms(2) have "\<not> lo \<le> i" by linarith
      ultimately show ?thesis using x by simp
    qed
  qed
  then show "(int_le_float lo x \<and> float_le_int x hi) \<longleftrightarrow> (lo \<le> i \<and> i \<le> hi)"
    by blast
  from both show "lo \<le> i \<and> i \<le> hi \<Longrightarrow> x = Finite (of_int i)"
    by blast
qed

lemma head_part_keys: "fst ` set (head_part B d n) \<subseteq> {''nodeId'', ''nodeType''}"
  by (auto simp: head_part_def split: option.splits)

lemma numeric_fields_fresh: "fst ` set numeric_fields \<inter> fst ` set (head_part B d n) = {}"
proof -
  have "fst ` set numeric_fields \<inter> {''nodeId'', ''nodeType''} = {}"
    by (simp add: numeric_fields_keys)
  with head_part_keys [of B d n] show ?thesis by blast
qed

lemma validate_sensor_data_unfold:
  "validate_sensor_data B data = Inr (Some r) \<Longrightarrow>
   \<exists>d nid node_id. data = JDict d \<and> map_of d ''nodeId'' = Some nid \<and>
      py_int B nid = Inr node_id \<and> 1 \<le> node_id \<and> node_id \<le> 3 \<and>
      validate_fields B d numeric_fields (head_part B d node_id) = Inr r \<and> 1 < length r"
  unfolding validate_sensor_data_def head_part_def Let_def
  by (auto split: jvalue.splits option.splits sum.splits if_splits)

lemma validate_sensor_data_shape:
  assumes "validate_sensor_data B data = Inr (Some r)"
  obtains d nid node_id where "data = JDict d" and "map_of d ''nodeId'' = Some nid"
    and "py_int B nid = Inr node_id" and "1 \<le> node_id" and "node_id \<le> 3"
    and "r = head_part B d node_id @ kept B d numeric_fields" and "1 < length r"
proof -
  from validate_sensor_data_unfold [OF assms]
  obtain d nid node_id where a: "data = JDict d" "map_of d ''nodeId'' = Some nid"
      "py_int B nid = Inr node_id" "1 \<le> node_id" "node_id \<le> 3"
      "validate_fields B d numeric_fields (head_part B d node_id) = Inr r" "1 < length r"
    by blast
  from validate_fields_kept [OF a(6) numeric_fields_distinct numeric_fields_fresh]
  have "r = head_part B d node_id @ kept B d numeric_fields" .
  with a that show ?thesis by blast
qed

lemma map_of_validated_field:
  assumes "fld \<in> set numeric_fields"
  shows "map_of (head_part B d n @ kept B d numeric_fields) (fst fld) = field_out B d fld"
proof -
  from assms numeric_fields_fresh [of B d n] have "fst fld \<notin> fst ` set (head_part B d n)"
    by blast
  then have "map_of (head_part B d n) (fst fld) = None" by (simp add: map_of_eq_None_iff)
  then show ?thesis
    by (simp add: map_add_def map_of_kept [OF numeric_fields_distinct assms])
qed

lemma validate_fields_drop_all:
  "(\<forall>fld \<in> set fs. \<forall>v. map_of d (fst fld) = Some v \<longrightarrow>
       (py_float B v = Inl ValueError \<or> py_float B v = Inl TypeError \<or>
        (\<exists>x. py_float B v = Inr x \<and> \<not> (int_le_float (fst (snd fld)) x \<and> float_le_int x (snd (snd fld)))))) \<Longrightarrow>
   validate_fields B d fs acc = Inr acc"
proof (induction fs)
  case Nil
  then show ?case by simp
next
  case (Cons fld fs)
  obtain f lo hi where fld: "fld = (f, lo, hi)" by (cases fld)
  from Cons have rest: "validate_fields B d fs acc = Inr acc" by simp
  from Cons.prems fld have here: "\<And>v. map_of d f = Some v \<Longrightarrow>
       py_float B v = Inl ValueError \<or> py_float B v = Inl TypeError \<or>
        (\<exists>x. py_float B v = Inr x \<and> \<not> (int_le_float lo x \<and> float_le_int x hi))"
    by simp
  show ?case
  proof (cases "map_of d f")
    case None
    with rest fld show ?thesis by simp
  next
    case (Some v)
    from here [OF Some] Some rest fld show ?thesis by auto
  qed
qed

lemma validate_sensor_data_no_survivor:
  assumes "map_of d ''nodeId'' = Some nid" and "py_int B nid = Inr node_id"
    and "1 \<le> node_id" and "node_id \<le> 3"
    and "\<forall>fld \<in> set numeric_fields. \<forall>v. map_of d (fst fld) = Some v \<longrightarrow>
       (py_float B v = Inl ValueError \<or> py_float B v = Inl TypeError \<or>
        (\<exists>x. py_float B v = Inr x \<and> \<not> (int_le_float (fst (snd fld)) x \<and> float_le_int x (snd (snd fld)))))"
  shows "validate_sensor_data B (JDict d) =
           Inr (case map_of d ''nodeType'' of
                  None \<Rightarrow> None
                | Some t \<Rightarrow> Some [(''nodeId'', JInt node_id), (''nodeType'', JStr (py_str B t))])"
  using assms(1-4) validate_fields_drop_all [OF assms(5)]
  unfolding validate_sensor_data_def Let_def
  by (simp split: option.splits)

text \<open>
  C1. A field map with a valid source id in which no measurement survives is rejected only
  when it carries no type label. The final test counts the entries of the dictionary, and
  the label is one of them: a frame whose only measurement is out of range, sent with a
  \<^verbatim>\<open>nodeType\<close>, is returned as a Reading that has the id and the label and no measurement.
  (\<open>validate_sensor_data_no_survivor\<close> above is the general statement.)
\<close>

theorem validate_sensor_data_label_only:
  "validate_sensor_data no_literals
     (JDict [(''nodeId'', JInt 2), (''nodeType'', JStr ''ESP32-S3''), (''pm25'', JInt 99999)]) =
   Inr (Some [(''nodeId'', JInt 2), (''nodeType'', JStr ''ESP32-S3'')])"
  by (simp add: validate_sensor_data_def numeric_fields_def int_to_float_def)

text \<open>
  C4, as the code has it. The eight measurement keys are \<^verbatim>\<open>pm25\<close>, \<^verbatim>\<open>pm10\<close>, \<^verbatim>\<open>eco2\<close>,
  \<^verbatim>\<open>tvoc\<close>, \<^verbatim>\<open>co\<close>, \<^verbatim>\<open>no2\<close>, \<^verbatim>\<open>temp\<close> and \<^verbatim>\<open>humidity\<close>. Whenever validation returns a
  Reading, each of them is in the Reading exactly when the input has it, \<^verbatim>\<open>float()\<close> accepts
  its value and the float lies within the bounds of the key, and it is then stored as that
  float; for an integer input that is: exactly when the integer lies within the bounds, and
  the stored float is the integer. A key named \<^verbatim>\<open>temperature\<close> is never in the Reading.
\<close>

theorem validated_field_range:
  assumes "validate_sensor_data B (JDict d) = Inr (Some r)"
    and "(f, lo, hi) \<in> set numeric_fields"
  shows "map_of r f =
           (case map_of d f of
              None \<Rightarrow> None
            | Some v \<Rightarrow>
                (case py_float B v of
                   Inl e \<Rightarrow> None
                 | Inr x \<Rightarrow> if int_le_float lo x \<and> float_le_int x hi then Some (JFloat x) else None)) \<and>
         (\<forall>i. map_of d f = Some (JInt i) \<longrightarrow>
              map_of r f = (if lo \<le> i \<and> i \<le> hi then Some (JFloat (Finite (of_int i))) else None)) \<and>
         map_of r ''temperature'' = None"
proof -
  from assms(1) obtain d' node_id where d': "JDict d = JDict d'"
    and r': "r = head_part B d' node_id @ kept B d' numeric_fields"
    by (rule validate_sensor_data_shape)
  from d' r' have r: "r = head_part B d node_id @ kept B d numeric_fields" by simp
  from map_of_validated_field [OF assms(2), of B d node_id] r
  have m: "map_of r f = field_out B d (f, lo, hi)" by simp
  have gen: "map_of r f =
           (case map_of d f of
              None \<Rightarrow> None
            | Some v \<Rightarrow>
                (case py_float B v of
                   Inl e \<Rightarrow> None
                 | Inr x \<Rightarrow> if int_le_float lo x \<and> float_le_int x hi then Some (JFloat x) else None))"
    unfolding m field_out_def by (simp split: option.splits sum.splits)
  from assms(2) have bounds: "- (2 ^ 53) < lo" "hi < 2 ^ 53"
    by (auto simp: numeric_fields_def)
  have ints: "\<forall>i. map_of d f = Some (JInt i) \<longrightarrow>
              map_of r f = (if lo \<le> i \<and> i \<le> hi then Some (JFloat (Finite (of_int i))) else None)"
  proof (intro allI impI)
    fix i assume i: "map_of d f = Some (JInt i)"
    show "map_of r f = (if lo \<le> i \<and> i \<le> hi then Some (JFloat (Finite (of_int i))) else None)"
    proof (cases "int_to_float i")
      case (Inl e)
      have "\<not> (lo \<le> i \<and> i \<le> hi)"
      proof
        assume "lo \<le> i \<and> i \<le> hi"
        with bounds have "\<bar>i\<bar> < 2 ^ 53" by linarith
        then have "int_to_float i = Inr (Finite (of_int i))" by (simp add: int_to_float_def)
        with Inl show False by simp
      qed
      with gen i Inl show ?thesis by simp
    next
      case (Inr x)
      from int_in_small_range [OF Inr bounds] gen i Inr show ?thesis by auto
    qed
  qed
  have "''temperature'' \<notin> fst ` set (head_part B d node_id)"
    using head_part_keys [of B d node_id] by auto
  then have "map_of (head_part B d node_id) ''temperature'' = None"
    by (simp add: map_of_eq_None_iff)
  moreover have "map_of (kept B d numeric_fields) ''temperature'' = None"
    by (rule map_of_kept_other) (simp add: numeric_fields_keys)
  ultimately have "map_of r ''temperature'' = None" by (simp add: r map_add_def)
  with gen ints show ?thesis by blast
qed

theorem validated_field_range_witness:
  "map_of [(''nodeId'', JInt 1), (''pm25'', JFloat (Finite (226 / 5))),
           (''eco2'', JFloat (Finite 900))] ''temp'' =
     (if - 50 \<le> (200 :: int) \<and> (200 :: int) \<le> 100 then Some (JFloat (Finite (of_int 200))) else None) \<and>
   map_of [(''nodeId'', JInt 1), (''pm25'', JFloat (Finite (226 / 5))),
           (''eco2'', JFloat (Finite 900))] ''temperature'' = None"
proof -
  have a: "validate_sensor_data no_literals
     (JDict [(''nodeId'', JInt 1), (''pm25'', JFloat (Finite (226 / 5))), (''eco2'', JInt 900),
             (''temp'', JInt 200)]) =
     Inr (Some [(''nodeId'', JInt 1), (''pm25'', JFloat (Finite (226 / 5))),
                (''eco2'', JFloat (Finite 900))])"
    by (simp add: validate_sensor_data_def numeric_fields_def int_to_float_def)
  have b: "(''temp'', - 50, 100) \<in> set numeric_fields"
    by (simp add: numeric_fields_def)
  have h: "map_of [(''nodeId'', JInt 1), (''pm25'', JFloat (Finite (226 / 5))), (''eco2'', JInt 900),
                 (''temp'', JInt 200)] ''temp'' = Some (JInt 200)" by simp
  note r = validated_field_range [OF a b]
  note c = r [THEN conjunct2, THEN conjunct1]
  note d = r [THEN conjunct2, THEN conjunct2]
  note e = c [rule_format, OF h]
  show ?thesis by (rule conjI [OF e d])
qed

text \<open>
  C4, as the specification words it, fails for the field it calls \<^verbatim>\<open>temperature\<close>: a value
  of 25 under that key lies inside \<open>[-50, 100]\<close> and is not in the Reading.
\<close>

theorem temperature_key_ignored:
  "validate_sensor_data no_literals
     (JDict [(''nodeId'', JInt 1), (''pm25'', JInt 10), (''temperature'', JInt 25)]) =
   Inr (Some [(''nodeId'', JInt 1), (''pm25'', JFloat (Finite 10))])"
  by (simp add: validate_sensor_data_def numeric_fields_def int_to_float_def)

text \<open>
  C8. Validation is idempotent: when a field map is accepted with Reading \<open>r\<close>, validating
  \<open>r\<close> itself is accepted as well and returns \<open>r\<close>, entry for entry.
\<close>

theorem validate_sensor_data_again:
  assumes "validate_sensor_data B data = Inr (Some r)"
  shows "validate_sensor_data B (JDict r) = Inr (Some r)"
proof -
  from assms obtain d nid node_id where d: "data = JDict d"
    and n: "1 \<le> node_id" "node_id \<le> 3"
    and r: "r = head_part B d node_id @ kept B d numeric_fields" and len: "1 < length r"
    by (rule validate_sensor_data_shape)
  have id: "map_of r ''nodeId'' = Some (JInt node_id)" by (simp add: r head_part_def)
  have "map_of (kept B d numeric_fields) ''nodeType'' = None"
    by (rule map_of_kept_other) (simp add: numeric_fields_keys)
  then have ty: "map_of r ''nodeType'' = map_of (head_part B d node_id) ''nodeType''"
    by (simp add: r map_add_def split: option.splits)
  have hp: "head_part B r node_id = head_part B d node_id"
    by (simp add: head_part_def ty split: option.splits)
  have fo: "\<forall>fld \<in> set numeric_fields. field_out B r fld = field_out B d fld"
  proof
    fix fld assume "fld \<in> set numeric_fields"
    then have "map_of r (fst fld) = field_out B d fld"
      unfolding r by (rule map_of_validated_field)
    then show "field_out B r fld = field_out B d fld" by (rule field_out_fixed)
  qed
  then have kp: "kept B r numeric_fields = kept B d numeric_fields" by (rule kept_cong)
  have fl: "\<forall>fld \<in> set numeric_fields. \<forall>v. map_of r (fst fld) = Some v \<longrightarrow> (\<exists>x. py_float B v = Inr x)"
  proof (intro ballI allI impI)
    fix fld v assume fld: "fld \<in> set numeric_fields" and v: "map_of r (fst fld) = Some v"
    from fld have "map_of r (fst fld) = field_out B d fld"
      unfolding r by (rule map_of_validated_field)
    with v have "field_out B d fld = Some v" by simp
    then obtain x where "v = JFloat x"
      by (cases fld) (auto simp: field_out_def split: option.splits sum.splits if_splits)
    then show "\<exists>x. py_float B v = Inr x" by simp
  qed
  have "validate_fields B r numeric_fields (head_part B r node_id) =
          Inr (head_part B r node_id @ kept B r numeric_fields)"
    by (rule validate_fields_no_raise [OF fl numeric_fields_distinct numeric_fields_fresh])
  with hp kp r have vf: "validate_fields B r numeric_fields (head_part B r node_id) = Inr r"
    by simp
  from id n vf len show ?thesis
    unfolding validate_sensor_data_def Let_def
    by (simp add: head_part_def split: option.splits)
qed

theorem validate_sensor_data_again_witness:
  "validate_sensor_data no_literals
     (JDict [(''eco2'', JInt 900), (''nodeType'', JInt 7), (''pm25'', JBool True),
             (''humidity'', JInt 101), (''nodeId'', JFloat (Finite 2))]) =
     Inr (Some [(''nodeId'', JInt 2), (''nodeType'', JStr []), (''pm25'', JFloat (Finite 1)),
                (''eco2'', JFloat (Finite 900))]) \<and>
   validate_sensor_data no_literals
     (JDict [(''nodeId'', JInt 2), (''nodeType'', JStr []), (''pm25'', JFloat (Finite 1)),
             (''eco2'', JFloat (Finite 900))]) =
     Inr (Some [(''nodeId'', JInt 2), (''nodeType'', JStr []), (''pm25'', JFloat (Finite 1)),
                (''eco2'', JFloat (Finite 900))])"
proof -
  have a: "validate_sensor_data no_literals
     (JDict [(''eco2'', JInt 900), (''nodeType'', JInt 7), (''pm25'', JBool True),
             (''humidity'', JInt 101), (''nodeId'', JFloat (Finite 2))]) =
     Inr (Some [(''nodeId'', JInt 2), (''nodeType'', JStr []), (''pm25'', JFloat (Finite 1)),
                (''eco2'', JFloat (Finite 900))])"
    by (simp add: validate_sensor_data_def numeric_fields_def int_to_float_def no_literals_def)
  from a validate_sensor_data_again [OF a] show ?thesis by (intro conjI)
qed

section \<open>The database\<close>

lemma execute_ok:
  "\<not> F (calls dbm) \<Longrightarrow> stmt (db_file dbm) = Some f \<Longrightarrow>
   execute F stmt dbm = (True, dbm\<lparr>calls := calls dbm + 1, db_file := f\<rparr>)"
  by (simp add: execute_def Let_def)

lemma assign_ids_append:
  "assign_ids s (xs @ ys) = assign_ids s xs @ assign_ids (s + length xs) ys"
  by (induction xs arbitrary: s) simp_all

lemma length_assign_ids: "length (assign_ids s rs) = length rs"
  by (induction rs arbitrary: s) simp_all

lemma run_try_inserts:
  "sensor_data (db_file dbm) = Some rows \<Longrightarrow> \<forall>k < length rs. \<not> F (calls dbm + k) \<Longrightarrow>
   run_try (map (\<lambda>r. execute F (insert_row r)) rs @ rest) dbm =
   run_try rest
     (dbm\<lparr>calls := calls dbm + length rs,
          db_file := \<lparr>sensor_data = Some (rows @ assign_ids (autoinc (db_file dbm)) rs),
                      autoinc = autoinc (db_file dbm) + length rs\<rparr>\<rparr>)"
proof (induction rs arbitrary: dbm rows)
  case Nil
  obtain c f n where dbm: "dbm = \<lparr>connected = c, db_file = f, calls = n\<rparr>" by (cases dbm)
  obtain t a where f: "f = \<lparr>sensor_data = t, autoinc = a\<rparr>" by (cases f)
  from Nil dbm f show ?case by simp
next
  case (Cons r rs)
  let ?f = "(db_file dbm)\<lparr>sensor_data := Some (rows @ [r\<lparr>col_id := Suc (autoinc (db_file dbm))\<rparr>]),
                            autoinc := Suc (autoinc (db_file dbm))\<rparr>"
  let ?dbm = "dbm\<lparr>calls := calls dbm + 1, db_file := ?f\<rparr>"
  from Cons.prems(2) have f0: "\<not> F (calls dbm)" by fastforce
  from Cons.prems(1) have ins: "insert_row r (db_file dbm) = Some ?f"
    by (simp add: insert_row_def)
  have step: "execute F (insert_row r) dbm = (True, ?dbm)"
    using f0 ins by (rule execute_ok)
  have rows': "sensor_data (db_file ?dbm) = Some (rows @ [r\<lparr>col_id := Suc (autoinc (db_file dbm))\<rparr>])"
    by simp
  have later: "\<forall>k < length rs. \<not> F (calls ?dbm + k)"
  proof (intro allI impI)
    fix k assume "k < length rs"
    then have "Suc k < length (r # rs)" by simp
    with Cons.prems(2) have "\<not> F (calls dbm + Suc k)" by blast
    then show "\<not> F (calls ?dbm + k)" by simp
  qed
  from Cons.IH [OF rows' later] step show ?case by simp
qed

lemma length_sample_rows: "length (sample_rows rnd now) = 300"
  by (simp add: sample_rows_def length_concat comp_def sum_list_triv)

lemma init_database_ok:
  assumes "\<forall>n < 308. \<not> F n"
  shows "init_database F rnd now f =
           \<lparr>connected = True,
            db_file = \<lparr>sensor_data = Some (assign_ids 0 (sample_rows rnd now)), autoinc = 300\<rparr>,
            calls = 308\<rparr>"
proof -
  from assms have nf: "\<And>n. n < 308 \<Longrightarrow> F n = False" by simp
  obtain t a where f: "f = \<lparr>sensor_data = t, autoinc = a\<rparr>" by (cases f)
  define d5 where "d5 = \<lparr>connected = True, db_file = \<lparr>sensor_data = Some [], autoinc = 0\<rparr>, calls = 6\<rparr>"
  have c6: "Suc (Suc (Suc (Suc (Suc (Suc 0))))) = 6" by simp
  have pre: "run_try
                 [execute F drop_sensor_data,
                  execute F create_sensor_data,
                  execute F create_index,
                  execute F create_index,
                  execute F create_daily_statistics,
                  insert_sample_data F rnd now,
                  execute F commit]
                 \<lparr>connected = True, db_file = f, calls = 1\<rparr> =
             run_try [insert_sample_data F rnd now, execute F commit] d5"
    by (simp add: nf f c6 execute_def Let_def drop_sensor_data_def create_sensor_data_def
        create_index_def create_daily_statistics_def d5_def)
  have rows: "sensor_data (db_file d5) = Some []" by (simp add: d5_def)
  have nof: "\<forall>k < length (sample_rows rnd now). \<not> F (calls d5 + k)"
    using assms by (simp add: length_sample_rows d5_def)
  have "insert_sample_data F rnd now d5 =
          run_try [execute F commit]
            (d5\<lparr>calls := calls d5 + length (sample_rows rnd now),
                db_file := \<lparr>sensor_data = Some ([] @ assign_ids (autoinc (db_file d5)) (sample_rows rnd now)),
                            autoinc = autoinc (db_file d5) + length (sample_rows rnd now)\<rparr>\<rparr>)"
    unfolding insert_sample_data_def by (rule run_try_inserts [OF rows nof])
  then have smp: "insert_sample_data F rnd now d5 =
      (True, \<lparr>connected = True,
            db_file = \<lparr>sensor_data = Some (assign_ids 0 (sample_rows rnd now)), autoinc = 300\<rparr>,
            calls = 307\<rparr>)"
    by (simp add: nf length_sample_rows d5_def execute_def Let_def commit_def)
  from pre smp show ?thesis
    by (simp add: nf init_database_def execute_def Let_def commit_def)
qed

section \<open>The rows after initialization\<close>

lemma node_ids_assign_ids: "map col_node_id (assign_ids s rs) = map col_node_id rs"
  by (induction rs arbitrary: s) simp_all

lemma node_types_assign_ids: "map col_node_type (assign_ids s rs) = map col_node_type rs"
  by (induction rs arbitrary: s) simp_all

lemma node_ids_sample_rows:
  "map col_node_id (sample_rows rnd now) = concat (map (\<lambda>i. [1, 2, 3]) [0..<100])"
  by (simp add: sample_rows_def map_concat comp_def sample_row_def)

lemma count_node_ids:
  "k = 1 \<or> k = 2 \<or> k = 3 \<Longrightarrow>
   length (filter (\<lambda>x. x = k) (concat (map (\<lambda>i. [1, 2, 3 :: int]) xs))) = length xs"
  by (induction xs) auto

lemma length_filter_node:
  "length (filter (\<lambda>r. col_node_id r = k) rs) = length (filter (\<lambda>x. x = k) (map col_node_id rs))"
  by (induction rs) simp_all

lemma sample_rows_per_node:
  assumes "k = 1 \<or> k = 2 \<or> k = 3"
  shows "length (filter (\<lambda>r. col_node_id r = k) (assign_ids s (sample_rows rnd now))) = 100"
  using count_node_ids [OF assms, of "[0..<100]"]
  by (simp add: length_filter_node node_ids_assign_ids node_ids_sample_rows)

lemma set_node_ids: "set (concat (map (\<lambda>i. [1, 2, 3 :: int]) [0..<100])) = set [1, 2, 3]"
  by auto

lemma sorted_node_ids:
  "sort (remdups (map col_node_id (assign_ids s (sample_rows rnd now)))) = [1, 2, 3]"
proof -
  have "sort (remdups (map col_node_id (assign_ids s (sample_rows rnd now)))) =
        sorted_list_of_set (set (concat (map (\<lambda>i. [1, 2, 3 :: int]) [0..<100])))"
    by (simp only: node_ids_assign_ids node_ids_sample_rows sorted_list_of_set_sort_remdups)
  also have "\<dots> = sorted_list_of_set (set [1, 2, 3 :: int])" by (simp only: set_node_ids)
  also have "\<dots> = sort (remdups [1, 2, 3 :: int])" by (simp only: sorted_list_of_set_sort_remdups)
  also have "\<dots> = [1, 2, 3]" by simp
  finally show ?thesis .
qed

lemma length_sample: "length (assign_ids s (sample_rows rnd now)) = 300"
  by (simp add: length_assign_ids length_sample_rows)

lemma statistics_of_sample:
  "total_records (statistics_of sz (assign_ids s (sample_rows rnd now))) = 300 \<and>
   node_counts (statistics_of sz (assign_ids s (sample_rows rnd now))) = [(1, 100), (2, 100), (3, 100)]"
  by (simp add: statistics_of_def length_sample sorted_node_ids sample_rows_per_node)

text \<open>
  C10. When no call into \<^verbatim>\<open>sqlite3\<close> raises during initialization and the first query,
  the table holds exactly the 300 generated sample rows right after \<open>init_database\<close>, 100
  for each of the nodes 1, 2 and 3, whatever file was found; \<open>get_statistics\<close> reports 300
  records and 100 per node, and \<open>get_recent_readings\<close> with a limit other than 0 returns
  a list of sample rows that is not empty.
\<close>

theorem init_database_sample_rows:
  assumes "\<forall>n < 311. \<not> F n" and "limit \<noteq> 0"
  shows "\<exists>rows st recent dbm1 dbm2.
      rows = assign_ids 0 (sample_rows rnd now) \<and>
      sensor_data (db_file (init_database F rnd now f)) = Some rows \<and>
      length rows = 300 \<and>
      length (filter (\<lambda>r. col_node_id r = 1) rows) = 100 \<and>
      length (filter (\<lambda>r. col_node_id r = 2) rows) = 100 \<and>
      length (filter (\<lambda>r. col_node_id r = 3) rows) = 100 \<and>
      get_statistics F st_size (init_database F rnd now f) = (Inr (Some st), dbm1) \<and>
      total_records st = 300 \<and>
      node_counts st = [(1, 100), (2, 100), (3, 100)] \<and>
      get_recent_readings F limit (init_database F rnd now f) = (Inr recent, dbm2) \<and>
      recent \<noteq> [] \<and> set recent \<subseteq> set rows"
proof -
  define rows where "rows = assign_ids 0 (sample_rows rnd now)"
  from assms(1) have nf: "\<And>n. n < 311 \<Longrightarrow> F n = False" by simp
  from assms(1) have "\<forall>n < 308. \<not> F n" by simp
  then have init: "init_database F rnd now f =
           \<lparr>connected = True, db_file = \<lparr>sensor_data = Some rows, autoinc = 300\<rparr>, calls = 308\<rparr>"
    unfolding rows_def by (rule init_database_ok)
  have len: "length rows = 300" unfolding rows_def by (rule length_sample)
  have n1: "length (filter (\<lambda>r. col_node_id r = 1) rows) = 100"
    and n2: "length (filter (\<lambda>r. col_node_id r = 2) rows) = 100"
    and n3: "length (filter (\<lambda>r. col_node_id r = 3) rows) = 100"
    unfolding rows_def by (simp_all add: sample_rows_per_node)
  define st where "st = statistics_of st_size rows"
  have stat: "get_statistics F st_size (init_database F rnd now f) =
      (Inr (Some st), \<lparr>connected = True, db_file = \<lparr>sensor_data = Some rows, autoinc = 300\<rparr>, calls = 311\<rparr>)"
    by (simp add: init get_statistics_def execute_def Let_def select_sensor_data_def nf st_def)
  have st: "total_records st = 300" "node_counts st = [(1, 100), (2, 100), (3, 100)]"
    unfolding st_def rows_def using statistics_of_sample [of st_size 0 rnd now] by simp_all
  define recent where "recent = (if limit < 0 then rev (sort_key col_timestamp rows)
     else take (nat limit) (rev (sort_key col_timestamp rows)))"
  have rec: "get_recent_readings F limit (init_database F rnd now f) =
      (Inr recent, \<lparr>connected = True, db_file = \<lparr>sensor_data = Some rows, autoinc = 300\<rparr>, calls = 309\<rparr>)"
    by (simp add: init get_recent_readings_def execute_def Let_def select_sensor_data_def nf recent_def)
  have "length (rev (sort_key col_timestamp rows)) = 300" using len by simp
  then have "rev (sort_key col_timestamp rows) \<noteq> []" by (metis length_0_conv zero_neq_numeral)
  with assms(2) have ne: "recent \<noteq> []" by (auto simp: recent_def)
  have sub: "set recent \<subseteq> set rows"
    by (auto simp: recent_def dest: in_set_takeD)
  from init len n1 n2 n3 stat st rec ne sub rows_def show ?thesis by auto
qed


theorem init_database_sample_rows_witness:
  "(\<exists>rows st recent dbm1 dbm2.
      rows = assign_ids 0 (sample_rows fixed_draws 0) \<and>
      sensor_data (db_file (init_database no_faults fixed_draws 0 \<lparr>sensor_data = None, autoinc = 0\<rparr>)) = Some rows \<and>
      length rows = 300 \<and>
      length (filter (\<lambda>r. col_node_id r = 1) rows) = 100 \<and>
      length (filter (\<lambda>r. col_node_id r = 2) rows) = 100 \<and>
      length (filter (\<lambda>r. col_node_id r = 3) rows) = 100 \<and>
      get_statistics no_faults 4096 (init_database no_faults fixed_draws 0 \<lparr>sensor_data = None, autoinc = 0\<rparr>) =
        (Inr (Some st), dbm1) \<and>
      total_records st = 300 \<and>
      node_counts st = [(1, 100), (2, 100), (3, 100)] \<and>
      get_recent_readings no_faults 50 (init_database no_faults fixed_draws 0 \<lparr>sensor_data = None, autoinc = 0\<rparr>) =
        (Inr recent, dbm2) \<and>
      recent \<noteq> [] \<and> set recent \<subseteq> set rows)"
proof -
  have a: "\<forall>n < 311. \<not> no_faults n" by (simp add: no_faults_def)
  have b: "(50 :: int) \<noteq> 0" by simp
  show ?thesis
    by (rule init_database_sample_rows [OF a b, of fixed_draws 0 "\<lparr>sensor_data = None, autoinc = 0\<rparr>" 4096])
qed

section \<open>Stored rows\<close>

lemma execute_keeps_rows:
  assumes "sensor_data (db_file dbm) = Some rows"
    and "stmt = insert_row r \<or> stmt = commit \<or> stmt = select_sensor_data"
  shows "\<exists>extra. sensor_data (db_file (snd (execute F stmt dbm))) = Some (rows @ extra)"
  using assms
  by (auto simp: execute_def Let_def insert_row_def commit_def select_sensor_data_def)

lemma execute_select_file:
  "db_file (snd (execute F select_sensor_data dbm)) = db_file dbm"
  by (simp add: execute_def Let_def select_sensor_data_def split: option.splits)

lemma insert_sensor_data_cases:
  assumes "insert_sensor_data B F T n data dbm = (res, dbm')"
  shows "(dbm' = dbm \<and> (\<exists>e. res = Inl e)) \<or>
         (\<exists>r ok. connected dbm \<and> res = Inr ok \<and> col_node_id r = n \<and>
            run_try [execute F (insert_row r), execute F commit] dbm = (ok, dbm'))"
  using assms unfolding insert_sensor_data_def Let_def
  by (auto split: option.splits prod.splits if_splits simp del: run_try.simps)

lemma insert_commit_rows:
  assumes "run_try [execute F (insert_row r), execute F commit] dbm = (ok, dbm')"
    and "sensor_data (db_file dbm) = Some rows"
  shows "\<exists>extra. sensor_data (db_file dbm') = Some (rows @ extra)"
    and "connected dbm' = connected dbm"
  using assms
  by (auto simp: execute_def Let_def insert_row_def commit_def split: if_splits)

lemma insert_sensor_data_keeps_rows:
  assumes "insert_sensor_data B F T n data dbm = (res, dbm')"
    and "sensor_data (db_file dbm) = Some rows"
  shows "\<exists>extra. sensor_data (db_file dbm') = Some (rows @ extra)"
proof -
  from insert_sensor_data_cases [OF assms(1)]
  consider "dbm' = dbm"
    | r ok where "run_try [execute F (insert_row r), execute F commit] dbm = (ok, dbm')"
    by blast
  then show ?thesis
  proof cases
    case 1
    with assms(2) show ?thesis by simp
  next
    case 2
    from insert_commit_rows(1) [OF 2 assms(2)] show ?thesis .
  qed
qed

lemma get_recent_readings_file:
  "db_file (snd (get_recent_readings F limit dbm)) = db_file dbm"
proof (cases "connected dbm")
  case False
  then show ?thesis by (simp add: get_recent_readings_def)
next
  case True
  obtain ok d1 where e: "execute F select_sensor_data dbm = (ok, d1)"
    by (cases "execute F select_sensor_data dbm")
  with execute_select_file [of F dbm] have "db_file d1 = db_file dbm" by simp
  with True e show ?thesis by (cases ok) (simp_all add: get_recent_readings_def Let_def)
qed

lemma get_statistics_file:
  "db_file (snd (get_statistics F st_size dbm)) = db_file dbm"
proof (cases "connected dbm")
  case False
  then show ?thesis by (simp add: get_statistics_def)
next
  case True
  obtain o1 d1 where e1: "execute F select_sensor_data dbm = (o1, d1)"
    by (cases "execute F select_sensor_data dbm")
  obtain o2 d2 where e2: "execute F select_sensor_data d1 = (o2, d2)"
    by (cases "execute F select_sensor_data d1")
  obtain o3 d3 where e3: "execute F select_sensor_data d2 = (o3, d3)"
    by (cases "execute F select_sensor_data d2")
  from execute_select_file [of F dbm] e1 have f1: "db_file d1 = db_file dbm" by simp
  from execute_select_file [of F d1] e2 f1 have f2: "db_file d2 = db_file dbm" by simp
  from execute_select_file [of F d2] e3 f2 have f3: "db_file d3 = db_file dbm" by simp
  from True e1 e2 e3 f1 f2 f3 show ?thesis
    by (cases o1; cases o2; cases o3) (simp_all add: get_statistics_def)
qed

lemma dispatch_keeps:
  "\<forall>ce \<in> set cs. \<forall>w. g (snd ce w) = g w \<Longrightarrow> g (fst (snd (dispatch R n data cs w called))) = g w"
proof (induction cs arbitrary: w called)
  case Nil
  then show ?case by simp
next
  case (Cons ce cs)
  obtain c eff where ce: "ce = (c, eff)" by (cases ce)
  from Cons.prems ce have here: "g (eff w) = g w" by auto
  from Cons.prems have rest: "\<forall>ce \<in> set cs. \<forall>w. g (snd ce w) = g w" by simp
  from Cons.IH [OF rest, of "eff w"] here ce show ?case
    by (cases "R c n data") simp_all
qed

lemma handle_data_keeps:
  assumes "\<And>w v. g (w\<lparr>node_widgets := v\<rparr>) = g w"
    and "\<And>w v. g (w\<lparr>node_status_labels := v\<rparr>) = g w"
    and "\<And>w v. g (w\<lparr>node_data := v\<rparr>) = g w"
  shows "g (fst (snd (handle_data R t data w))) = g w"
proof -
  have "g (fst (snd (dispatch R n data cs w []))) = g w"
    if "cs = (if n \<in> fst ` set (node_widgets w)
                      then [(NodeWidget, \<lambda>w. w\<lparr>node_widgets := set_status n ONLINE (node_widgets w)\<rparr>)]
                      else []) @
                    [(GraphWidget, \<lambda>w. w),
                     (InfographicsWidget, \<lambda>w. w),
                     (GeneralUserDashboard,
                        \<lambda>w. w\<lparr>node_status_labels := set_status n ONLINE (node_status_labels w)\<rparr>)]" for n cs
    by (rule dispatch_keeps) (auto simp: that assms)
  then show ?thesis
    unfolding handle_data_def
    by (auto simp: assms split: option.splits jvalue.splits prod.splits)
qed

section \<open>The persistence tick\<close>









lemma offline_loop_keeps:
  assumes "\<And>w v u. g (w\<lparr>node_widgets := v, node_status_labels := u\<rparr>) = g w"
  shows "g (fst (offline_loop t items w called)) = g w"
  by (induction items arbitrary: w called) (auto simp: assms)

lemma update_all_keeps:
  assumes "\<And>w v u. g (w\<lparr>node_widgets := v, node_status_labels := u\<rparr>) = g w"
  shows "g (fst (snd (update_all gui t w))) = g w"
  using offline_loop_keeps [of g t "node_data w" w "[]", OF assms]
  by (auto simp: update_all_def split: option.splits prod.splits)






subsection \<open>The rows that the ticks leave in the table\<close>







lemma init_database_no_faults:
  "init_database no_faults rnd now f =
     \<lparr>connected = True,
      db_file = \<lparr>sensor_data = Some (assign_ids 0 (sample_rows rnd now)), autoinc = 300\<rparr>,
      calls = 308\<rparr>"
  by (rule init_database_ok) (simp add: no_faults_def)

lemma main_window_init_no_faults:
  "sensor_data (db_file (db_manager (main_window_init no_faults rnd now f))) =
     Some (assign_ids 0 (sample_rows rnd now))"
  by (simp add: main_window_init_def init_database_no_faults)




section \<open>Rows are only appended after initialization\<close>

lemma save_loop_rows:
  "sensor_data (db_file (db_manager w)) = Some rows \<Longrightarrow>
   save_loop B F T t items w tried = (x, w', tried') \<Longrightarrow>
   \<exists>extra. sensor_data (db_file (db_manager w')) = Some (rows @ extra)"
proof (induction items arbitrary: w tried rows)
  case Nil
  then show ?case by simp
next
  case (Cons item items)
  obtain n data ts where item: "item = (n, data, ts)" by (cases item)
  show ?case
  proof (cases "map_of (last_db_save w) n")
    case None
    with Cons.prems item show ?thesis by simp
  next
    case (Some last_save)
    show ?thesis
    proof (cases "case last_save of None \<Rightarrow> True | Some c \<Rightarrow> 5 \<le> total_seconds (t - c)")
      case False
      with Cons.prems item Some have "save_loop B F T t items w tried = (x, w', tried')" by simp
      from Cons.IH [OF Cons.prems(1) this] show ?thesis .
    next
      case True
      obtain res dbm where ins: "insert_sensor_data B F T n data (db_manager w) = (res, dbm)"
        by (cases "insert_sensor_data B F T n data (db_manager w)")
      from insert_sensor_data_keeps_rows [OF ins Cons.prems(1)]
      obtain x1 where x1: "sensor_data (db_file dbm) = Some (rows @ x1)" by blast
      show ?thesis
      proof (cases res)
        case (Inl e)
        with Cons.prems item Some True ins have "w' = w\<lparr>db_manager := dbm\<rparr>" by simp
        with x1 show ?thesis by auto
      next
        case (Inr success)
        let ?w = "w\<lparr>db_manager := dbm,
                      last_db_save := (if success then AList.update n (Some t) (last_db_save w)
                                       else last_db_save w)\<rparr>"
        from Cons.prems(2) item Some True ins Inr
        have rest: "save_loop B F T t items ?w (tried @ [(n, success)]) = (x, w', tried')" by simp
        from x1 have "sensor_data (db_file (db_manager ?w)) = Some (rows @ x1)" by simp
        from Cons.IH [OF this rest] obtain x2
          where "sensor_data (db_file (db_manager w')) = Some ((rows @ x1) @ x2)" by blast
        then show ?thesis by auto
      qed
    qed
  qed
qed

lemma run_rows:
  "sensor_data (db_file (db_manager w)) = Some rows \<Longrightarrow>
   \<exists>extra. sensor_data (db_file (db_manager (fst (run B F T R evs w saved)))) = Some (rows @ extra)"
proof (induction evs arbitrary: w saved rows)
  case Nil
  then show ?case by simp
next
  case (Cons ev evs)
  show ?case
  proof (cases ev)
    case (DataReceived data t)
    obtain x w1 called where h: "handle_data R t data w = (x, w1, called)"
      by (cases "handle_data R t data w")
    have "db_manager (fst (snd (handle_data R t data w))) = db_manager w"
      by (rule handle_data_keeps) simp_all
    with h Cons.prems have w1: "sensor_data (db_file (db_manager w1)) = Some rows" by simp
    from DataReceived h Cons.IH [OF w1] show ?thesis by simp
  next
    case (DbTimer t)
    obtain x w1 tried where c: "check_db_save B F T t w = (x, w1, tried)"
      by (cases "check_db_save B F T t w")
    from save_loop_rows [OF Cons.prems c [unfolded check_db_save_def]]
    obtain x1 where w1: "sensor_data (db_file (db_manager w1)) = Some (rows @ x1)" by blast
    from Cons.IH [OF w1, of "saved @ successes t tried"] obtain x2
      where "sensor_data (db_file (db_manager (fst (run B F T R evs w1 (saved @ successes t tried))))) =
              Some ((rows @ x1) @ x2)" by blast
    with DbTimer c show ?thesis by auto
  next
    case (UpdateTimer gui t)
    obtain x w1 called where u: "update_all gui t w = (x, w1, called)"
      by (cases "update_all gui t w")
    have "db_manager (fst (snd (update_all gui t w))) = db_manager w"
      by (rule update_all_keeps) simp
    with u Cons.prems have w1: "sensor_data (db_file (db_manager w1)) = Some rows" by simp
    from UpdateTimer u Cons.IH [OF w1] show ?thesis by simp
  qed
qed

text \<open>
  C9, as the code has it. Once the program has initialized, the rows of the table are only
  appended to: after any run of the slots, with any Readings and any faults, the rows that
  were in the table before are still there, in place and unchanged, followed by the rows
  written since; \<open>get_recent_readings\<close> and \<open>get_statistics\<close> leave the file as it is.
  Initialization is the exception and is stated apart, below.
\<close>

theorem stored_rows_kept:
  assumes "sensor_data (db_file (db_manager w)) = Some rows"
  shows "(\<exists>extra. sensor_data (db_file (db_manager (fst (run B F T R evs w saved)))) = Some (rows @ extra)) \<and>
         db_file (snd (get_recent_readings F limit (db_manager w))) = db_file (db_manager w) \<and>
         db_file (snd (get_statistics F st_size (db_manager w))) = db_file (db_manager w)"
  using run_rows [OF assms] get_recent_readings_file get_statistics_file by blast

theorem stored_rows_kept_witness:
  "sensor_data (db_file (db_manager (main_window_init no_faults fixed_draws 0 \<lparr>sensor_data = None, autoinc = 0\<rparr>))) =
     Some (assign_ids 0 (sample_rows fixed_draws 0)) \<and>
   ((\<exists>extra. sensor_data (db_file (db_manager (fst (run no_literals no_faults (db_clock 2) no_consumer_raises
          [DataReceived [(''nodeId'', JInt 1), (''pm25'', JFloat (Finite 12))] 0, DbTimer 1000000]
          (main_window_init no_faults fixed_draws 0 \<lparr>sensor_data = None, autoinc = 0\<rparr>) [])))) =
        Some (assign_ids 0 (sample_rows fixed_draws 0) @ extra)) \<and>
    db_file (snd (get_recent_readings no_faults 50
       (db_manager (main_window_init no_faults fixed_draws 0 \<lparr>sensor_data = None, autoinc = 0\<rparr>)))) =
      db_file (db_manager (main_window_init no_faults fixed_draws 0 \<lparr>sensor_data = None, autoinc = 0\<rparr>)) \<and>
    db_file (snd (get_statistics no_faults 4096
       (db_manager (main_window_init no_faults fixed_draws 0 \<lparr>sensor_data = None, autoinc = 0\<rparr>)))) =
      db_file (db_manager (main_window_init no_faults fixed_draws 0 \<lparr>sensor_data = None, autoinc = 0\<rparr>)))"
proof -
  note a = main_window_init_no_faults [of fixed_draws 0 "\<lparr>sensor_data = None, autoinc = 0\<rparr>"]
  note b = stored_rows_kept [OF a, of no_literals no_faults "db_clock 2" no_consumer_raises
          "[DataReceived [(''nodeId'', JInt 1), (''pm25'', JFloat (Finite 12))] 0, DbTimer 1000000]"
          "[]" 50 4096]
  show ?thesis by (rule conjI [OF a b])
qed

lemma sample_rows_node_type:
  "r \<in> set (assign_ids s (sample_rows rnd now)) \<Longrightarrow> col_node_type r = JStr ''ESP32-S3''"
proof -
  assume "r \<in> set (assign_ids s (sample_rows rnd now))"
  then have "col_node_type r \<in> set (map col_node_type (assign_ids s (sample_rows rnd now)))"
    by simp
  then have "col_node_type r \<in> set (map col_node_type (sample_rows rnd now))"
    by (simp only: node_types_assign_ids)
  then show ?thesis by (auto simp: sample_rows_def sample_row_def)
qed

text \<open>
  C9, as the specification words it, fails at initialization: \<open>init_database\<close> drops the
  table before it creates it, so a row stored by an earlier run is gone after the
  program has started, and the table holds the sample rows only.
\<close>

theorem init_database_drops_rows:
  "sensor_data (db_file (init_database no_faults fixed_draws 0 \<lparr>sensor_data = Some [earlier_row], autoinc = 1\<rparr>)) =
     Some (assign_ids 0 (sample_rows fixed_draws 0)) \<and>
   earlier_row \<notin> set (assign_ids 0 (sample_rows fixed_draws 0))"
proof -
  have "col_node_type earlier_row \<noteq> JStr ''ESP32-S3''" by (simp add: earlier_row_def)
  then have "earlier_row \<notin> set (assign_ids 0 (sample_rows fixed_draws 0))"
    using sample_rows_node_type by blast
  then show ?thesis by (simp add: init_database_no_faults)
qed

section \<open>Dispatch to the consumers\<close>

text \<open>
  C5, as the code has it. For a Reading of node \<open>n\<close> the four consumers are called in the
  order node widget, graph widget, infographics widget, general dashboard, up to and
  including the first one that raises; the consumers after it are not called, its exception
  leaves \<open>handle_data\<close>, and the Reading is recorded in \<^verbatim>\<open>node_data\<close> only when none of them
  raised.
\<close>

theorem handle_data_stops_at_first_failure:
  assumes "map_of data ''nodeId'' = Some (JInt n)" and "1 \<le> n" and "n \<le> 3"
    and "n \<in> fst ` set (node_widgets w)"
  shows "snd (snd (handle_data R t data w)) =
           takeWhile (\<lambda>c. R c n data = None)
             [NodeWidget, GraphWidget, InfographicsWidget, GeneralUserDashboard] @
           take 1 (dropWhile (\<lambda>c. R c n data = None)
             [NodeWidget, GraphWidget, InfographicsWidget, GeneralUserDashboard]) \<and>
         fst (handle_data R t data w) =
           (case dropWhile (\<lambda>c. R c n data = None)
                   [NodeWidget, GraphWidget, InfographicsWidget, GeneralUserDashboard] of
              [] \<Rightarrow> None
            | c # cs \<Rightarrow> R c n data) \<and>
         node_data (fst (snd (handle_data R t data w))) =
           (if R NodeWidget n data = None \<and> R GraphWidget n data = None \<and>
               R InfographicsWidget n data = None \<and> R GeneralUserDashboard n data = None
            then AList.update n (data, t) (node_data w)
            else node_data w)"
  using assms
  by (cases "R NodeWidget n data"; cases "R GraphWidget n data";
      cases "R InfographicsWidget n data"; cases "R GeneralUserDashboard n data")
     (simp_all add: handle_data_def)

theorem handle_data_stops_at_first_failure_witness:
  "map_of [(''nodeId'', JInt 1), (''pm25'', JFloat (Finite 12))] ''nodeId'' = Some (JInt 1) \<and>
   (1::int) \<le> 1 \<and> (1::int) \<le> 3 \<and>
   1 \<in> fst ` set (node_widgets (main_window_init no_faults fixed_draws 0 \<lparr>sensor_data = None, autoinc = 0\<rparr>)) \<and>
   snd (snd (handle_data no_consumer_raises 0 [(''nodeId'', JInt 1), (''pm25'', JFloat (Finite 12))]
               (main_window_init no_faults fixed_draws 0 \<lparr>sensor_data = None, autoinc = 0\<rparr>))) =
     [NodeWidget, GraphWidget, InfographicsWidget, GeneralUserDashboard]"
proof -
  let ?d = "[(''nodeId'', JInt 1), (''pm25'', JFloat (Finite 12))]"
  let ?w = "main_window_init no_faults fixed_draws 0 \<lparr>sensor_data = None, autoinc = 0\<rparr>"
  have a: "map_of ?d ''nodeId'' = Some (JInt 1)" by simp
  have b: "(1::int) \<le> 1" and c: "(1::int) \<le> 3" by simp_all
  have d: "1 \<in> fst ` set (node_widgets ?w)" by (simp add: main_window_init_def)
  from handle_data_stops_at_first_failure [OF a b c d, of no_consumer_raises 0]
  have "snd (snd (handle_data no_consumer_raises 0 ?d ?w)) =
           takeWhile (\<lambda>c. no_consumer_raises c 1 ?d = None)
             [NodeWidget, GraphWidget, InfographicsWidget, GeneralUserDashboard] @
           take 1 (dropWhile (\<lambda>c. no_consumer_raises c 1 ?d = None)
             [NodeWidget, GraphWidget, InfographicsWidget, GeneralUserDashboard])"
    by (elim conjE)
  also have "\<dots> = [NodeWidget, GraphWidget, InfographicsWidget, GeneralUserDashboard]"
    by (simp add: no_consumer_raises_def)
  finally have e: "snd (snd (handle_data no_consumer_raises 0 ?d ?w)) =
      [NodeWidget, GraphWidget, InfographicsWidget, GeneralUserDashboard]" .
  from a b c d e show ?thesis by (intro conjI)
qed

text \<open>
  C5, as the specification words it, fails: when the node widget raises, the three
  consumers registered after it do not receive the Reading, and \<^verbatim>\<open>node_data\<close> stays empty.
\<close>

theorem handle_data_failure_not_isolated:
  "fst (handle_data node_widget_raises 0 [(''nodeId'', JInt 1), (''pm25'', JFloat (Finite 12))]
          (main_window_init no_faults fixed_draws 0 \<lparr>sensor_data = None, autoinc = 0\<rparr>)) =
     Some ValueError \<and>
   snd (snd (handle_data node_widget_raises 0 [(''nodeId'', JInt 1), (''pm25'', JFloat (Finite 12))]
          (main_window_init no_faults fixed_draws 0 \<lparr>sensor_data = None, autoinc = 0\<rparr>))) =
     [NodeWidget] \<and>
   node_data (fst (snd (handle_data node_widget_raises 0 [(''nodeId'', JInt 1), (''pm25'', JFloat (Finite 12))]
          (main_window_init no_faults fixed_draws 0 \<lparr>sensor_data = None, autoinc = 0\<rparr>)))) = []"
  by (simp add: handle_data_def main_window_init_def node_widget_raises_def set_status_def)

section \<open>The sweep for offline nodes\<close>

lemma keys_set_status: "fst ` set (set_status n s labels) = fst ` set labels"
  by (auto simp: set_status_def dom_update)

lemma map_of_set_status:
  "map_of (set_status n s labels) m =
     (if m = n \<and> n \<in> fst ` set labels then Some s else map_of labels m)"
  by (simp add: set_status_def update_conv')

lemma offline_loop_result:
  "offline_loop t items w called = (w', called') \<Longrightarrow>
   called' = called @ map fst (filter (\<lambda>(n, data, ts). 60 < total_seconds (t - ts) \<and>
                                         n \<in> fst ` set (node_widgets w)) items) \<and>
   fst ` set (node_widgets w') = fst ` set (node_widgets w) \<and>
   (\<forall>m. map_of (node_widgets w') m =
        (if m \<in> fst ` set (filter (\<lambda>(n, data, ts). 60 < total_seconds (t - ts) \<and>
                                         n \<in> fst ` set (node_widgets w)) items)
         then Some OFFLINE else map_of (node_widgets w) m)) \<and>
   node_data w' = node_data w"
proof (induction items arbitrary: w called)
  case Nil
  then show ?case by simp
next
  case (Cons item items)
  obtain n data ts where item: "item = (n, data, ts)" by (cases item)
  show ?case
  proof (cases "60 < total_seconds (t - ts)")
    case False
    with Cons.prems item have "offline_loop t items w called = (w', called')" by simp
    from Cons.IH [OF this] False item show ?thesis by simp
  next
    case True
    let ?w = "w\<lparr>node_widgets := set_status n OFFLINE (node_widgets w),
                node_status_labels := set_status n OFFLINE (node_status_labels w)\<rparr>"
    let ?c = "if n \<in> fst ` set (node_widgets w) then called @ [n] else called"
    from Cons.prems item True have rest: "offline_loop t items ?w ?c = (w', called')" by simp
    have keys: "fst ` set (node_widgets ?w) = fst ` set (node_widgets w)"
      by (simp add: keys_set_status)
    note ih = Cons.IH [OF rest, unfolded keys]
    from ih have c: "called' = ?c @ map fst (filter (\<lambda>(n, data, ts). 60 < total_seconds (t - ts) \<and>
                                         n \<in> fst ` set (node_widgets w)) items)"
      and k: "fst ` set (node_widgets w') = fst ` set (node_widgets w)"
      and m: "\<And>m. map_of (node_widgets w') m =
        (if m \<in> fst ` set (filter (\<lambda>(n, data, ts). 60 < total_seconds (t - ts) \<and>
                                         n \<in> fst ` set (node_widgets w)) items)
         then Some OFFLINE else map_of (node_widgets ?w) m)"
      and d: "node_data w' = node_data w"
      by simp_all
    from c item True have c': "called' = called @ map fst (filter (\<lambda>(n, data, ts). 60 < total_seconds (t - ts) \<and>
                                         n \<in> fst ` set (node_widgets w)) (item # items))"
      by simp
    have m': "map_of (node_widgets w') k =
        (if k \<in> fst ` set (filter (\<lambda>(n, data, ts). 60 < total_seconds (t - ts) \<and>
                                         n \<in> fst ` set (node_widgets w)) (item # items))
         then Some OFFLINE else map_of (node_widgets w) k)" for k
      unfolding m [of k] using item True by (auto simp: map_of_set_status)
    from c' k m' d show ?thesis by blast
  qed
qed

lemma total_seconds_silent:
  "60 < total_seconds (t - ts) \<Longrightarrow> t \<le> t' \<Longrightarrow> 60 < total_seconds (t' - ts)"
proof -
  assume a: "60 < total_seconds (t - ts)" and b: "t \<le> t'"
  from b have "(of_int (t - ts) :: rat) \<le> of_int (t' - ts)" by simp
  then have "total_seconds (t - ts) \<le> total_seconds (t' - ts)"
    unfolding total_seconds_def by (rule divide_right_mono) simp
  with a show ?thesis by simp
qed

text \<open>
  C2, as the code has it. A sweep that runs calls \<^verbatim>\<open>set_offline()\<close> for exactly the nodes
  that have a recorded Reading more than 60 seconds old, whether their status is ONLINE or
  already OFFLINE; afterwards these nodes show OFFLINE and the others show what they showed
  before. The sweep keeps no record of having fired: as long as no Reading arrives, every
  later sweep calls \<^verbatim>\<open>set_offline()\<close> for the same nodes again.
\<close>

theorem update_all_marks_silent_nodes:
  assumes "update_all None t w = (x, w', called)"
  shows "x = None \<and>
         called = map fst (filter (\<lambda>(n, data, ts). 60 < total_seconds (t - ts) \<and>
                                      n \<in> fst ` set (node_widgets w)) (node_data w)) \<and>
         (\<forall>m. map_of (node_widgets w') m =
              (if m \<in> set called then Some OFFLINE else map_of (node_widgets w) m)) \<and>
         node_data w' = node_data w \<and>
         (\<forall>t'. t \<le> t' \<longrightarrow> set called \<subseteq> set (snd (snd (update_all None t' w'))))"
proof -
  obtain w1 c1 where ol: "offline_loop t (node_data w) w [] = (w1, c1)"
    by (cases "offline_loop t (node_data w) w []")
  with assms have eq: "x = None" "w' = w1" "called = c1" by (simp_all add: update_all_def)
  note r = offline_loop_result [OF ol]
  from r eq have c: "called = map fst (filter (\<lambda>(n, data, ts). 60 < total_seconds (t - ts) \<and>
                                      n \<in> fst ` set (node_widgets w)) (node_data w))"
    and k: "fst ` set (node_widgets w') = fst ` set (node_widgets w)"
    and d: "node_data w' = node_data w" by simp_all
  have sc: "fst ` set (filter (\<lambda>(n, data, ts). 60 < total_seconds (t - ts) \<and>
                                      n \<in> fst ` set (node_widgets w)) (node_data w)) = set called"
    unfolding c by (simp only: set_map)
  from r eq(2) have "\<forall>m. map_of (node_widgets w') m =
        (if m \<in> fst ` set (filter (\<lambda>(n, data, ts). 60 < total_seconds (t - ts) \<and>
                                         n \<in> fst ` set (node_widgets w)) (node_data w))
         then Some OFFLINE else map_of (node_widgets w) m)" by blast
  then have m: "\<forall>m. map_of (node_widgets w') m =
              (if m \<in> set called then Some OFFLINE else map_of (node_widgets w) m)"
    unfolding sc .
  have again: "set called \<subseteq> set (snd (snd (update_all None t' w')))" if le: "t \<le> t'" for t'
  proof -
    obtain w2 c2 where ol2: "offline_loop t' (node_data w') w' [] = (w2, c2)"
      by (cases "offline_loop t' (node_data w') w' []")
    from offline_loop_result [OF ol2] k d
    have c2: "c2 = map fst (filter (\<lambda>(n, data, ts). 60 < total_seconds (t' - ts) \<and>
                                      n \<in> fst ` set (node_widgets w)) (node_data w))" by simp
    have "set called \<subseteq> set c2"
      unfolding c c2 using total_seconds_silent [OF _ le] by auto
    with ol2 show ?thesis by (simp add: update_all_def)
  qed
  from eq(1) c m d again show ?thesis by blast
qed


theorem update_all_marks_silent_nodes_witness:
  "fst (update_all None 61000000 
     (fst (snd (handle_data no_consumer_raises 0 [(''nodeId'', JInt 3), (''pm25'', JFloat (Finite 12))]
        (main_window_init no_faults fixed_draws 0 \<lparr>sensor_data = None, autoinc = 0\<rparr>))))) = None \<and>
   set (snd (snd (update_all None 61000000 
     (fst (snd (handle_data no_consumer_raises 0 [(''nodeId'', JInt 3), (''pm25'', JFloat (Finite 12))]
        (main_window_init no_faults fixed_draws 0 \<lparr>sensor_data = None, autoinc = 0\<rparr>))))))) \<subseteq>
   set (snd (snd (update_all None 62000000 (fst (snd (update_all None 61000000 
     (fst (snd (handle_data no_consumer_raises 0 [(''nodeId'', JInt 3), (''pm25'', JFloat (Finite 12))]
        (main_window_init no_faults fixed_draws 0 \<lparr>sensor_data = None, autoinc = 0\<rparr>))))))))))"
proof -
  let ?u = "update_all None 61000000 
     (fst (snd (handle_data no_consumer_raises 0 [(''nodeId'', JInt 3), (''pm25'', JFloat (Finite 12))]
        (main_window_init no_faults fixed_draws 0 \<lparr>sensor_data = None, autoinc = 0\<rparr>))))"
  have a: "?u = (fst ?u, fst (snd ?u), snd (snd ?u))" by simp
  note r = update_all_marks_silent_nodes [OF a]
  note b = r [THEN conjunct1]
  note c = r [THEN conjunct2, THEN conjunct2, THEN conjunct2, THEN conjunct2]
  have le: "(61000000 :: int) \<le> 62000000" by simp
  note d = c [rule_format, of 62000000, OF le]
  show ?thesis by (rule conjI [OF b d])
qed

text \<open>
  C2, as the specification words it, fails: node 3 was last seen at time 0; the sweep at
  61 s calls \<^verbatim>\<open>set_offline()\<close> for it, and so does the sweep at 62 s, when the node already
  shows OFFLINE.
\<close>

theorem set_offline_called_on_every_sweep:
  "snd (snd (update_all None 61000000
     (fst (snd (handle_data no_consumer_raises 0 [(''nodeId'', JInt 3), (''pm25'', JFloat (Finite 12))]
        (main_window_init no_faults fixed_draws 0 \<lparr>sensor_data = None, autoinc = 0\<rparr>)))))) = [3] \<and>
   map_of (node_widgets (fst (snd (update_all None 61000000
     (fst (snd (handle_data no_consumer_raises 0 [(''nodeId'', JInt 3), (''pm25'', JFloat (Finite 12))]
        (main_window_init no_faults fixed_draws 0 \<lparr>sensor_data = None, autoinc = 0\<rparr>)))))))) 3 =
     Some OFFLINE \<and>
   snd (snd (update_all None 62000000
     (fst (snd (update_all None 61000000
       (fst (snd (handle_data no_consumer_raises 0 [(''nodeId'', JInt 3), (''pm25'', JFloat (Finite 12))]
          (main_window_init no_faults fixed_draws 0 \<lparr>sensor_data = None, autoinc = 0\<rparr>))))))))) = [3]"
  by (simp add: update_all_def handle_data_def main_window_init_def no_consumer_raises_def
      set_status_def total_seconds_def)

section \<open>A write that fails\<close>

text \<open>
  What holds of a failing write on an open connection: \<open>insert_sensor_data\<close> returns a
  boolean, unless a value of the dictionary is an integer too large for a float
  (\<open>insert_sensor_data_connected\<close>); a tick changes \<^verbatim>\<open>last_db_save\<close> only for the nodes
  whose insert returned \<^verbatim>\<open>True\<close> (\<open>save_loop_cursor\<close>); and a node that was due at one tick is
  due at every later tick as long as its \<^verbatim>\<open>last_db_save\<close> stays as it is
  (\<open>still_due_later\<close>).
\<close>

lemma py_float_raises:
  "py_float B v = Inl e \<Longrightarrow> e = TypeError \<or> e = ValueError \<or> e = OverflowError"
  by (cases v) (auto simp: int_to_float_def Let_def split: if_splits option.splits)

lemma validate_data_raises: "validate_data B v lo hi = Inl e \<Longrightarrow> e = OverflowError"
  using py_float_raises [of B v]
  by (auto simp: validate_data_def split: if_splits sum.splits)

lemma first_raised_member: "first_raised xs = Some e \<Longrightarrow> Inl e \<in> set xs"
  by (induction xs rule: first_raised.induct) auto

lemma insert_sensor_data_connected:
  assumes "connected dbm" and "insert_sensor_data B F T n data dbm = (res, dbm')"
  shows "res = Inl OverflowError \<or> (\<exists>ok. res = Inr ok)"
proof (cases res)
  case (Inr ok)
  then show ?thesis by simp
next
  case (Inl e)
  with assms obtain xs where "first_raised xs = Some e"
    and "\<forall>x \<in> set xs. \<exists>v lo hi. x = validate_data B v lo hi"
    unfolding insert_sensor_data_def Let_def
    by (fastforce split: option.splits prod.splits if_splits simp del: run_try.simps first_raised.simps)
  with first_raised_member [of xs e] validate_data_raises Inl show ?thesis by metis
qed

lemma still_due_later:
  assumes "case last_save of None \<Rightarrow> True | Some c \<Rightarrow> 5 \<le> total_seconds (t - c)" and "t \<le> t'"
  shows "case last_save of None \<Rightarrow> True | Some c \<Rightarrow> 5 \<le> total_seconds (t' - c)"
proof (cases last_save)
  case None
  then show ?thesis by simp
next
  case (Some c)
  with assms(1) have a: "5 \<le> total_seconds (t - c)" by simp
  from assms(2) have "(of_int (t - c) :: rat) \<le> of_int (t' - c)" by simp
  then have "total_seconds (t - c) \<le> total_seconds (t' - c)"
    unfolding total_seconds_def by (rule divide_right_mono) simp
  with a Some show ?thesis by simp
qed

text \<open>
  C7. The claim fails where the connection was never opened. When \<^verbatim>\<open>sqlite3.connect\<close>
  raised at start, \<open>init_database\<close> caught the error and left \<^verbatim>\<open>cursor\<close> unset; the first
  write then raises \<^verbatim>\<open>AttributeError\<close>, which the handler for \<^verbatim>\<open>sqlite3.Error\<close> in
  \<open>insert_sensor_data\<close> does not catch and which leaves the slot \<open>check_db_save\<close>.
\<close>

theorem insert_raises_without_connection:
  "fst (insert_sensor_data no_literals connect_fails (db_clock 7) 1
          [(''nodeId'', JInt 1), (''pm25'', JFloat (Finite 12))]
          (init_database connect_fails fixed_draws 0 \<lparr>sensor_data = None, autoinc = 0\<rparr>)) =
     Inl AttributeError \<and>
   fst (check_db_save no_literals connect_fails (db_clock 7) 7000000
          (fst (snd (handle_data no_consumer_raises 1000000
             [(''nodeId'', JInt 1), (''pm25'', JFloat (Finite 12))]
             (main_window_init connect_fails fixed_draws 0 \<lparr>sensor_data = None, autoinc = 0\<rparr>))))) =
     Some AttributeError"
  by (simp add: check_db_save_def handle_data_def main_window_init_def init_database_def
      connect_fails_def no_consumer_raises_def set_status_def insert_sensor_data_def
      validate_data_def dict_get_def)

end
